theory Spec2Isabelle
  imports Main "HOL-Library.Word" "HOL-Library.Monad_Syntax"
begin

section \<open>Data model\<close>

text \<open>
  The Q31 radix-4 CFFT/CIFFT of \<^verbatim>\<open>riscv_cfft_radix4_q31.c\<close>.

  \<^item> \<^verbatim>\<open>q31_t\<close> is a 32-bit two's complement integer and \<^verbatim>\<open>uint32_t\<close> a 32-bit unsigned
    one: both are \<open>32 word\<close>. \<open>+\<close>, \<open>-\<close> and \<open>*\<close> wrap around, \<^verbatim>\<open>x >> n\<close> on a
    \<^verbatim>\<open>q31_t\<close> is the arithmetic shift \<open>signed_drop_bit n\<close>, on a \<^verbatim>\<open>uint32_t\<close> the logical
    shift \<open>drop_bit n\<close>, and \<^verbatim>\<open>x << n\<close> is \<open>push_bit n\<close>.
  \<^item> Memory is one store of \<^verbatim>\<open>q31_t\<close> cells addressed by element index. A pointer
    \<^verbatim>\<open>q31_t *\<close> is the index of the cell it points to, \<^verbatim>\<open>p[i]\<close> is the cell \<open>p + i\<close>.
    The sample buffer \<^verbatim>\<open>pSrc\<close> and the coefficient table \<^verbatim>\<open>pCoef\<close> live in the same
    store, so a write through one pointer is seen by a read through the other when
    they overlap.
  \<^item> A loop that the source can run forever (the counters are unsigned and wrap) is a
    \<open>partial_function\<close> into \<open>option\<close>: \<open>None\<close> is "does not return".
\<close>

type_synonym q31_t = "32 word"
type_synonym uint32_t = "32 word"
type_synonym heap = "nat \<Rightarrow> q31_t"

text \<open>\<^verbatim>\<open>(int32_t) (((q63_t) a * b) >> 32)\<close>: the high word of the signed 64-bit product.\<close>

definition mult_hi :: "q31_t \<Rightarrow> q31_t \<Rightarrow> q31_t" where
  "mult_hi a b = word_of_int ((sint a * sint b) div 2 ^ 32)"

text \<open>A decremented counter that was not zero is smaller: the loops below end.\<close>

lemma unat_pred_less: "x \<noteq> 0 \<Longrightarrow> unat (x - 1) < unat (x :: 32 word)"
  by (simp add: unat_minus_one unat_gt_0)

section \<open>Forward butterfly engine\<close>

subsection \<open>First stage\<close>

text \<open>
  One pass of the body of the first \<^verbatim>\<open>do ... while(--j)\<close> loop (source lines 208-294),
  statement by statement; \<open>pSi0 .. pSi3\<close> are the cursors at the start of the pass.
\<close>

definition first_stage_butterfly_q31 ::
  "nat \<Rightarrow> nat \<Rightarrow> nat \<Rightarrow> nat \<Rightarrow> nat \<Rightarrow> uint32_t \<Rightarrow> heap \<Rightarrow> heap" where
  "first_stage_butterfly_q31 pCoef pSi0 pSi1 pSi2 pSi3 ia1 h =
    (let r1 = signed_drop_bit 4 (h pSi0) + signed_drop_bit 4 (h pSi2);
         r2 = signed_drop_bit 4 (h pSi0) - signed_drop_bit 4 (h pSi2);
         t1 = signed_drop_bit 4 (h pSi1) + signed_drop_bit 4 (h pSi3);
         s1 = signed_drop_bit 4 (h (pSi0 + 1)) + signed_drop_bit 4 (h (pSi2 + 1));
         s2 = signed_drop_bit 4 (h (pSi0 + 1)) - signed_drop_bit 4 (h (pSi2 + 1));
         h = h(pSi0 := r1 + t1);
         r1 = r1 - t1;
         t2 = signed_drop_bit 4 (h (pSi1 + 1)) + signed_drop_bit 4 (h (pSi3 + 1));
         h = h(pSi0 + 1 := s1 + t2);
         s1 = s1 - t2;
         t1 = signed_drop_bit 4 (h (pSi1 + 1)) - signed_drop_bit 4 (h (pSi3 + 1));
         t2 = signed_drop_bit 4 (h pSi1) - signed_drop_bit 4 (h pSi3);
         ia2 = 2 * ia1;
         co2 = h (pCoef + unat (ia2 * 2));
         si2 = h (pCoef + unat (ia2 * 2 + 1));
         h = h(pSi1 := push_bit 1 (mult_hi r1 co2 + mult_hi s1 si2));
         h = h(pSi1 + 1 := push_bit 1 (mult_hi s1 co2 - mult_hi r1 si2));
         r1 = r2 + t1;
         r2 = r2 - t1;
         s1 = s2 - t2;
         s2 = s2 + t2;
         co1 = h (pCoef + unat (ia1 * 2));
         si1 = h (pCoef + unat (ia1 * 2 + 1));
         h = h(pSi2 := push_bit 1 (mult_hi r1 co1 + mult_hi s1 si1));
         h = h(pSi2 + 1 := push_bit 1 (mult_hi s1 co1 - mult_hi r1 si1));
         ia3 = 3 * ia1;
         co3 = h (pCoef + unat (ia3 * 2));
         si3 = h (pCoef + unat (ia3 * 2 + 1));
         h = h(pSi3 := push_bit 1 (mult_hi r2 co3 + mult_hi s2 si3));
         h = h(pSi3 + 1 := push_bit 1 (mult_hi s2 co3 - mult_hi r2 si3))
     in h)"

text \<open>
  The \<^verbatim>\<open>do { ... } while(--j)\<close> loop: the body runs, every cursor has moved on by two
  cells, \<open>ia1\<close> by the modifier, and the loop goes on while the decremented counter
  (which wraps from 0 to \<open>2^32 - 1\<close>) is not zero.
\<close>

function first_stage_loop_q31 ::
  "nat \<Rightarrow> uint32_t \<Rightarrow> nat \<Rightarrow> nat \<Rightarrow> nat \<Rightarrow> nat \<Rightarrow> uint32_t \<Rightarrow> uint32_t \<Rightarrow> heap \<Rightarrow> heap" where
  "first_stage_loop_q31 pCoef twidCoefModifier pSi0 pSi1 pSi2 pSi3 ia1 j h =
    (let h' = first_stage_butterfly_q31 pCoef pSi0 pSi1 pSi2 pSi3 ia1 h;
         ia1' = ia1 + twidCoefModifier;
         j' = j - 1
     in if j' \<noteq> 0
        then first_stage_loop_q31 pCoef twidCoefModifier
               (pSi0 + 2) (pSi1 + 2) (pSi2 + 2) (pSi3 + 2) ia1' j' h'
        else h')"
  by pat_completeness auto
termination
proof (relation "measure (\<lambda>(pCoef, m, p0, p1, p2, p3, ia1, j, h). unat (j - 1))", goal_cases)
  case 1
  show ?case by simp
next
  case (2 pCoef m p0 p1 p2 p3 ia1 j h x xa xb)
  then have "j - 1 \<noteq> 0" by simp
  then have "unat (j - 1 - 1) < unat (j - 1)"
    by (rule unat_pred_less)
  with 2 show ?case by simp
qed

declare first_stage_loop_q31.simps [simp del]

subsection \<open>Middle stages\<close>

text \<open>
  One pass of the body of the innermost \<^verbatim>\<open>for (i0 = j; i0 < fftLen; i0 += n1)\<close> loop
  (source lines 338-414).
\<close>

definition middle_stage_butterfly_q31 ::
  "q31_t \<Rightarrow> q31_t \<Rightarrow> q31_t \<Rightarrow> q31_t \<Rightarrow> q31_t \<Rightarrow> q31_t \<Rightarrow>
   nat \<Rightarrow> nat \<Rightarrow> nat \<Rightarrow> nat \<Rightarrow> heap \<Rightarrow> heap" where
  "middle_stage_butterfly_q31 co1 si1 co2 si2 co3 si3 pSi0 pSi1 pSi2 pSi3 h =
    (let r1 = h pSi0 + h pSi2;
         r2 = h pSi0 - h pSi2;
         s1 = h (pSi0 + 1) + h (pSi2 + 1);
         s2 = h (pSi0 + 1) - h (pSi2 + 1);
         t1 = h pSi1 + h pSi3;
         h = h(pSi0 := signed_drop_bit 2 (r1 + t1));
         r1 = r1 - t1;
         t2 = h (pSi1 + 1) + h (pSi3 + 1);
         h = h(pSi0 + 1 := signed_drop_bit 2 (s1 + t2));
         s1 = s1 - t2;
         t1 = h (pSi1 + 1) - h (pSi3 + 1);
         t2 = h pSi1 - h pSi3;
         h = h(pSi1 := signed_drop_bit 1 (mult_hi r1 co2 + mult_hi s1 si2));
         h = h(pSi1 + 1 := signed_drop_bit 1 (mult_hi s1 co2 - mult_hi r1 si2));
         r1 = r2 + t1;
         r2 = r2 - t1;
         s1 = s2 - t2;
         s2 = s2 + t2;
         h = h(pSi2 := signed_drop_bit 1 (mult_hi r1 co1 + mult_hi s1 si1));
         h = h(pSi2 + 1 := signed_drop_bit 1 (mult_hi s1 co1 - mult_hi r1 si1));
         h = h(pSi3 := signed_drop_bit 1 (mult_hi r2 co3 + mult_hi s2 si3));
         h = h(pSi3 + 1 := signed_drop_bit 1 (mult_hi s2 co3 - mult_hi r2 si3))
     in h)"

text \<open>
  \<^verbatim>\<open>for (i0 = j; i0 < fftLen; i0 += n1)\<close>: every cursor moves on by \<^verbatim>\<open>2 * n1\<close> cells
  (a \<^verbatim>\<open>uint32_t\<close> product) per pass. \<open>i0 + n1\<close> can wrap, so the loop need not end.
\<close>

partial_function (option) middle_i0_loop_q31 ::
  "uint32_t \<Rightarrow> uint32_t \<Rightarrow> q31_t \<Rightarrow> q31_t \<Rightarrow> q31_t \<Rightarrow> q31_t \<Rightarrow> q31_t \<Rightarrow> q31_t \<Rightarrow>
   nat \<Rightarrow> nat \<Rightarrow> nat \<Rightarrow> nat \<Rightarrow> uint32_t \<Rightarrow> heap \<Rightarrow> heap option" where
  "middle_i0_loop_q31 fftLen n1 co1 si1 co2 si2 co3 si3 pSi0 pSi1 pSi2 pSi3 i0 h =
    (if i0 < fftLen
     then middle_i0_loop_q31 fftLen n1 co1 si1 co2 si2 co3 si3
            (pSi0 + unat (2 * n1)) (pSi1 + unat (2 * n1))
            (pSi2 + unat (2 * n1)) (pSi3 + unat (2 * n1)) (i0 + n1)
            (middle_stage_butterfly_q31 co1 si1 co2 si2 co3 si3 pSi0 pSi1 pSi2 pSi3 h)
     else Some h)"

text \<open>
  \<^verbatim>\<open>for (j = 0u; j <= (n2 - 1u); j++)\<close>: the six coefficients are read once per \<open>j\<close>,
  then the inner loop runs. With \<open>n2 = 0\<close> the bound is \<open>2^32 - 1\<close> and the loop
  never ends.
\<close>

partial_function (option) middle_j_loop_q31 ::
  "nat \<Rightarrow> uint32_t \<Rightarrow> nat \<Rightarrow> uint32_t \<Rightarrow> uint32_t \<Rightarrow> uint32_t \<Rightarrow> uint32_t \<Rightarrow> uint32_t \<Rightarrow>
   heap \<Rightarrow> heap option" where
  "middle_j_loop_q31 pSrc fftLen pCoef twidCoefModifier n1 n2 ia1 j h =
    (if j \<le> n2 - 1
     then
       (let ia2 = ia1 + ia1;
            ia3 = ia2 + ia1;
            co1 = h (pCoef + unat (ia1 * 2));
            si1 = h (pCoef + unat (ia1 * 2 + 1));
            co2 = h (pCoef + unat (ia2 * 2));
            si2 = h (pCoef + unat (ia2 * 2 + 1));
            co3 = h (pCoef + unat (ia3 * 2));
            si3 = h (pCoef + unat (ia3 * 2 + 1));
            ia1' = ia1 + twidCoefModifier;
            pSi0 = pSrc + unat (2 * j);
            pSi1 = pSi0 + unat (2 * n2);
            pSi2 = pSi1 + unat (2 * n2);
            pSi3 = pSi2 + unat (2 * n2)
        in Option.bind
             (middle_i0_loop_q31 fftLen n1 co1 si1 co2 si2 co3 si3 pSi0 pSi1 pSi2 pSi3 j h)
             (\<lambda>h'. middle_j_loop_q31 pSrc fftLen pCoef twidCoefModifier n1 n2 ia1' (j + 1) h'))
     else Some h)"

text \<open>
  \<^verbatim>\<open>for (k = fftLen / 4u; k > 4u; k >>= 2u)\<close>: one middle stage per pass, with
  \<^verbatim>\<open>n1 = n2; n2 >>= 2u\<close> at its start and \<^verbatim>\<open>twidCoefModifier <<= 2u\<close> at its end.
\<close>

partial_function (option) middle_stages_q31 ::
  "nat \<Rightarrow> uint32_t \<Rightarrow> nat \<Rightarrow> uint32_t \<Rightarrow> uint32_t \<Rightarrow> uint32_t \<Rightarrow> heap \<Rightarrow> heap option" where
  "middle_stages_q31 pSrc fftLen pCoef twidCoefModifier n2 k h =
    (if 4 < k
     then
       (let n1 = n2;
            n2' = drop_bit 2 n2
        in Option.bind
             (middle_j_loop_q31 pSrc fftLen pCoef twidCoefModifier n1 n2' 0 0 h)
             (\<lambda>h'. middle_stages_q31 pSrc fftLen pCoef (push_bit 2 twidCoefModifier) n2'
                      (drop_bit 2 k) h'))
     else Some h)"

subsection \<open>Last stage\<close>

text \<open>
  One pass of the body of the last \<^verbatim>\<open>do ... while(--j)\<close> loop (source lines 437-478):
  eight reads through \<^verbatim>\<open>*ptr1++\<close>, the cursor stepped back by eight, eight writes.
\<close>

definition last_stage_butterfly_q31 :: "nat \<Rightarrow> heap \<Rightarrow> heap" where
  "last_stage_butterfly_q31 ptr1 h =
    (let xa = h ptr1;
         ya = h (ptr1 + 1);
         xb = h (ptr1 + 2);
         yb = h (ptr1 + 3);
         xc = h (ptr1 + 4);
         yc = h (ptr1 + 5);
         xd = h (ptr1 + 6);
         yd = h (ptr1 + 7);
         xa_out = xa + xb + xc + xd;
         ya_out = ya + yb + yc + yd;
         h = h(ptr1 := xa_out);
         h = h(ptr1 + 1 := ya_out);
         xc_out = xa - xb + xc - xd;
         yc_out = ya - yb + yc - yd;
         h = h(ptr1 + 2 := xc_out);
         h = h(ptr1 + 3 := yc_out);
         xb_out = xa + yb - xc - yd;
         yb_out = ya - xb - yc + xd;
         h = h(ptr1 + 4 := xb_out);
         h = h(ptr1 + 5 := yb_out);
         xd_out = xa - yb - xc + yd;
         yd_out = ya + xb - yc - xd;
         h = h(ptr1 + 6 := xd_out);
         h = h(ptr1 + 7 := yd_out)
     in h)"

function last_stage_loop_q31 :: "nat \<Rightarrow> uint32_t \<Rightarrow> heap \<Rightarrow> heap" where
  "last_stage_loop_q31 ptr1 j h =
    (let h' = last_stage_butterfly_q31 ptr1 h;
         j' = j - 1
     in if j' \<noteq> 0 then last_stage_loop_q31 (ptr1 + 8) j' h' else h')"
  by pat_completeness auto
termination
proof (relation "measure (\<lambda>(ptr1, j, h). unat (j - 1))", goal_cases)
  case 1
  show ?case by simp
next
  case (2 ptr1 j h x xa)
  then have "j - 1 \<noteq> 0" by simp
  then have "unat (j - 1 - 1) < unat (j - 1)"
    by (rule unat_pred_less)
  with 2 show ?case by simp
qed

declare last_stage_loop_q31.simps [simp del]

subsection \<open>The engine\<close>

text \<open>
  The routine in its three phases. \<open>first_stage_q31\<close> is the code from the
  initialisations to the end of the first loop (lines 193-294): \<^verbatim>\<open>n2 = fftLen >> 2\<close>,
  the four cursors \<^verbatim>\<open>pSi0 = pSrc\<close>, \<^verbatim>\<open>pSi1 = pSi0 + 2 * n2\<close>, \<^verbatim>\<open>pSi2 = pSi1 + 2 * n2\<close>,
  \<^verbatim>\<open>pSi3 = pSi2 + 2 * n2\<close>, \<^verbatim>\<open>ia1 = 0\<close> and \<^verbatim>\<open>j = n2\<close>. \<open>last_stage_q31\<close> is the code
  from line 431 on: \<^verbatim>\<open>j = fftLen >> 2\<close>, \<^verbatim>\<open>ptr1 = &pSrc[0]\<close> and the last loop.
\<close>

definition first_stage_q31 :: "nat \<Rightarrow> uint32_t \<Rightarrow> nat \<Rightarrow> uint32_t \<Rightarrow> heap \<Rightarrow> heap" where
  "first_stage_q31 pSrc fftLen pCoef twidCoefModifier h =
    (let n2 = drop_bit 2 fftLen;
         ia1 = 0;
         j = n2;
         pSi0 = pSrc;
         pSi1 = pSi0 + unat (2 * n2);
         pSi2 = pSi1 + unat (2 * n2);
         pSi3 = pSi2 + unat (2 * n2)
     in first_stage_loop_q31 pCoef twidCoefModifier pSi0 pSi1 pSi2 pSi3 ia1 j h)"

definition last_stage_q31 :: "nat \<Rightarrow> uint32_t \<Rightarrow> heap \<Rightarrow> heap" where
  "last_stage_q31 pSrc fftLen h = last_stage_loop_q31 pSrc (drop_bit 2 fftLen) h"

definition riscv_radix4_butterfly_q31 ::
  "nat \<Rightarrow> uint32_t \<Rightarrow> nat \<Rightarrow> uint32_t \<Rightarrow> heap \<Rightarrow> heap option" where
  "riscv_radix4_butterfly_q31 pSrc fftLen pCoef twidCoefModifier h =
    (let n2 = drop_bit 2 fftLen;
         h = first_stage_q31 pSrc fftLen pCoef twidCoefModifier h;
         twidCoefModifier = push_bit 2 twidCoefModifier
     in Option.bind
          (middle_stages_q31 pSrc fftLen pCoef twidCoefModifier n2 (fftLen div 4) h)
          (\<lambda>h. Some (last_stage_q31 pSrc fftLen h)))"

section \<open>Inverse butterfly engine\<close>

text \<open>The body of the first loop of the inverse routine (source lines 584-667).\<close>

definition first_stage_butterfly_inverse_q31 ::
  "nat \<Rightarrow> nat \<Rightarrow> nat \<Rightarrow> nat \<Rightarrow> nat \<Rightarrow> uint32_t \<Rightarrow> heap \<Rightarrow> heap" where
  "first_stage_butterfly_inverse_q31 pCoef pSi0 pSi1 pSi2 pSi3 ia1 h =
    (let r1 = signed_drop_bit 4 (h pSi0) + signed_drop_bit 4 (h pSi2);
         r2 = signed_drop_bit 4 (h pSi0) - signed_drop_bit 4 (h pSi2);
         t1 = signed_drop_bit 4 (h pSi1) + signed_drop_bit 4 (h pSi3);
         s1 = signed_drop_bit 4 (h (pSi0 + 1)) + signed_drop_bit 4 (h (pSi2 + 1));
         s2 = signed_drop_bit 4 (h (pSi0 + 1)) - signed_drop_bit 4 (h (pSi2 + 1));
         h = h(pSi0 := r1 + t1);
         r1 = r1 - t1;
         t2 = signed_drop_bit 4 (h (pSi1 + 1)) + signed_drop_bit 4 (h (pSi3 + 1));
         h = h(pSi0 + 1 := s1 + t2);
         s1 = s1 - t2;
         t1 = signed_drop_bit 4 (h (pSi1 + 1)) - signed_drop_bit 4 (h (pSi3 + 1));
         t2 = signed_drop_bit 4 (h pSi1) - signed_drop_bit 4 (h pSi3);
         ia2 = 2 * ia1;
         co2 = h (pCoef + unat (ia2 * 2));
         si2 = h (pCoef + unat (ia2 * 2 + 1));
         h = h(pSi1 := push_bit 1 (mult_hi r1 co2 - mult_hi s1 si2));
         h = h(pSi1 + 1 := push_bit 1 (mult_hi s1 co2 + mult_hi r1 si2));
         r1 = r2 - t1;
         r2 = r2 + t1;
         s1 = s2 + t2;
         s2 = s2 - t2;
         co1 = h (pCoef + unat (ia1 * 2));
         si1 = h (pCoef + unat (ia1 * 2 + 1));
         h = h(pSi2 := push_bit 1 (mult_hi r1 co1 - mult_hi s1 si1));
         h = h(pSi2 + 1 := push_bit 1 (mult_hi s1 co1 + mult_hi r1 si1));
         ia3 = 3 * ia1;
         co3 = h (pCoef + unat (ia3 * 2));
         si3 = h (pCoef + unat (ia3 * 2 + 1));
         h = h(pSi3 := push_bit 1 (mult_hi r2 co3 - mult_hi s2 si3));
         h = h(pSi3 + 1 := push_bit 1 (mult_hi s2 co3 + mult_hi r2 si3))
     in h)"

function first_stage_loop_inverse_q31 ::
  "nat \<Rightarrow> uint32_t \<Rightarrow> nat \<Rightarrow> nat \<Rightarrow> nat \<Rightarrow> nat \<Rightarrow> uint32_t \<Rightarrow> uint32_t \<Rightarrow> heap \<Rightarrow> heap" where
  "first_stage_loop_inverse_q31 pCoef twidCoefModifier pSi0 pSi1 pSi2 pSi3 ia1 j h =
    (let h' = first_stage_butterfly_inverse_q31 pCoef pSi0 pSi1 pSi2 pSi3 ia1 h;
         ia1' = ia1 + twidCoefModifier;
         j' = j - 1
     in if j' \<noteq> 0
        then first_stage_loop_inverse_q31 pCoef twidCoefModifier
               (pSi0 + 2) (pSi1 + 2) (pSi2 + 2) (pSi3 + 2) ia1' j' h'
        else h')"
  by pat_completeness auto
termination
proof (relation "measure (\<lambda>(pCoef, m, p0, p1, p2, p3, ia1, j, h). unat (j - 1))", goal_cases)
  case 1
  show ?case by simp
next
  case (2 pCoef m p0 p1 p2 p3 ia1 j h x xa xb)
  then have "j - 1 \<noteq> 0" by simp
  then have "unat (j - 1 - 1) < unat (j - 1)"
    by (rule unat_pred_less)
  with 2 show ?case by simp
qed

declare first_stage_loop_inverse_q31.simps [simp del]

text \<open>The body of the innermost middle-stage loop of the inverse routine (lines 706-783).\<close>

definition middle_stage_butterfly_inverse_q31 ::
  "q31_t \<Rightarrow> q31_t \<Rightarrow> q31_t \<Rightarrow> q31_t \<Rightarrow> q31_t \<Rightarrow> q31_t \<Rightarrow>
   nat \<Rightarrow> nat \<Rightarrow> nat \<Rightarrow> nat \<Rightarrow> heap \<Rightarrow> heap" where
  "middle_stage_butterfly_inverse_q31 co1 si1 co2 si2 co3 si3 pSi0 pSi1 pSi2 pSi3 h =
    (let r1 = h pSi0 + h pSi2;
         r2 = h pSi0 - h pSi2;
         s1 = h (pSi0 + 1) + h (pSi2 + 1);
         s2 = h (pSi0 + 1) - h (pSi2 + 1);
         t1 = h pSi1 + h pSi3;
         h = h(pSi0 := signed_drop_bit 2 (r1 + t1));
         r1 = r1 - t1;
         t2 = h (pSi1 + 1) + h (pSi3 + 1);
         h = h(pSi0 + 1 := signed_drop_bit 2 (s1 + t2));
         s1 = s1 - t2;
         t1 = h (pSi1 + 1) - h (pSi3 + 1);
         t2 = h pSi1 - h pSi3;
         h = h(pSi1 := signed_drop_bit 1 (mult_hi r1 co2 - mult_hi s1 si2));
         h = h(pSi1 + 1 := signed_drop_bit 1 (mult_hi s1 co2 + mult_hi r1 si2));
         r1 = r2 - t1;
         r2 = r2 + t1;
         s1 = s2 + t2;
         s2 = s2 - t2;
         h = h(pSi2 := signed_drop_bit 1 (mult_hi r1 co1 - mult_hi s1 si1));
         h = h(pSi2 + 1 := signed_drop_bit 1 (mult_hi s1 co1 + mult_hi r1 si1));
         h = h(pSi3 := signed_drop_bit 1 (mult_hi r2 co3 - mult_hi s2 si3));
         h = h(pSi3 + 1 := signed_drop_bit 1 (mult_hi s2 co3 + mult_hi r2 si3))
     in h)"

partial_function (option) middle_i0_loop_inverse_q31 ::
  "uint32_t \<Rightarrow> uint32_t \<Rightarrow> q31_t \<Rightarrow> q31_t \<Rightarrow> q31_t \<Rightarrow> q31_t \<Rightarrow> q31_t \<Rightarrow> q31_t \<Rightarrow>
   nat \<Rightarrow> nat \<Rightarrow> nat \<Rightarrow> nat \<Rightarrow> uint32_t \<Rightarrow> heap \<Rightarrow> heap option" where
  "middle_i0_loop_inverse_q31 fftLen n1 co1 si1 co2 si2 co3 si3 pSi0 pSi1 pSi2 pSi3 i0 h =
    (if i0 < fftLen
     then middle_i0_loop_inverse_q31 fftLen n1 co1 si1 co2 si2 co3 si3
            (pSi0 + unat (2 * n1)) (pSi1 + unat (2 * n1))
            (pSi2 + unat (2 * n1)) (pSi3 + unat (2 * n1)) (i0 + n1)
            (middle_stage_butterfly_inverse_q31 co1 si1 co2 si2 co3 si3 pSi0 pSi1 pSi2 pSi3 h)
     else Some h)"

partial_function (option) middle_j_loop_inverse_q31 ::
  "nat \<Rightarrow> uint32_t \<Rightarrow> nat \<Rightarrow> uint32_t \<Rightarrow> uint32_t \<Rightarrow> uint32_t \<Rightarrow> uint32_t \<Rightarrow> uint32_t \<Rightarrow>
   heap \<Rightarrow> heap option" where
  "middle_j_loop_inverse_q31 pSrc fftLen pCoef twidCoefModifier n1 n2 ia1 j h =
    (if j \<le> n2 - 1
     then
       (let ia2 = ia1 + ia1;
            ia3 = ia2 + ia1;
            co1 = h (pCoef + unat (ia1 * 2));
            si1 = h (pCoef + unat (ia1 * 2 + 1));
            co2 = h (pCoef + unat (ia2 * 2));
            si2 = h (pCoef + unat (ia2 * 2 + 1));
            co3 = h (pCoef + unat (ia3 * 2));
            si3 = h (pCoef + unat (ia3 * 2 + 1));
            ia1' = ia1 + twidCoefModifier;
            pSi0 = pSrc + unat (2 * j);
            pSi1 = pSi0 + unat (2 * n2);
            pSi2 = pSi1 + unat (2 * n2);
            pSi3 = pSi2 + unat (2 * n2)
        in Option.bind
             (middle_i0_loop_inverse_q31 fftLen n1 co1 si1 co2 si2 co3 si3
                pSi0 pSi1 pSi2 pSi3 j h)
             (\<lambda>h'. middle_j_loop_inverse_q31 pSrc fftLen pCoef twidCoefModifier n1 n2 ia1'
                      (j + 1) h'))
     else Some h)"

partial_function (option) middle_stages_inverse_q31 ::
  "nat \<Rightarrow> uint32_t \<Rightarrow> nat \<Rightarrow> uint32_t \<Rightarrow> uint32_t \<Rightarrow> uint32_t \<Rightarrow> heap \<Rightarrow> heap option" where
  "middle_stages_inverse_q31 pSrc fftLen pCoef twidCoefModifier n2 k h =
    (if 4 < k
     then
       (let n1 = n2;
            n2' = drop_bit 2 n2
        in Option.bind
             (middle_j_loop_inverse_q31 pSrc fftLen pCoef twidCoefModifier n1 n2' 0 0 h)
             (\<lambda>h'. middle_stages_inverse_q31 pSrc fftLen pCoef (push_bit 2 twidCoefModifier)
                      n2' (drop_bit 2 k) h'))
     else Some h)"

text \<open>The body of the last loop of the inverse routine (source lines 806-847).\<close>

definition last_stage_butterfly_inverse_q31 :: "nat \<Rightarrow> heap \<Rightarrow> heap" where
  "last_stage_butterfly_inverse_q31 ptr1 h =
    (let xa = h ptr1;
         ya = h (ptr1 + 1);
         xb = h (ptr1 + 2);
         yb = h (ptr1 + 3);
         xc = h (ptr1 + 4);
         yc = h (ptr1 + 5);
         xd = h (ptr1 + 6);
         yd = h (ptr1 + 7);
         xa_out = xa + xb + xc + xd;
         ya_out = ya + yb + yc + yd;
         h = h(ptr1 := xa_out);
         h = h(ptr1 + 1 := ya_out);
         xc_out = xa - xb + xc - xd;
         yc_out = ya - yb + yc - yd;
         h = h(ptr1 + 2 := xc_out);
         h = h(ptr1 + 3 := yc_out);
         xb_out = xa - yb - xc + yd;
         yb_out = ya + xb - yc - xd;
         h = h(ptr1 + 4 := xb_out);
         h = h(ptr1 + 5 := yb_out);
         xd_out = xa + yb - xc - yd;
         yd_out = ya - xb - yc + xd;
         h = h(ptr1 + 6 := xd_out);
         h = h(ptr1 + 7 := yd_out)
     in h)"

function last_stage_loop_inverse_q31 :: "nat \<Rightarrow> uint32_t \<Rightarrow> heap \<Rightarrow> heap" where
  "last_stage_loop_inverse_q31 ptr1 j h =
    (let h' = last_stage_butterfly_inverse_q31 ptr1 h;
         j' = j - 1
     in if j' \<noteq> 0 then last_stage_loop_inverse_q31 (ptr1 + 8) j' h' else h')"
  by pat_completeness auto
termination
proof (relation "measure (\<lambda>(ptr1, j, h). unat (j - 1))", goal_cases)
  case 1
  show ?case by simp
next
  case (2 ptr1 j h x xa)
  then have "j - 1 \<noteq> 0" by simp
  then have "unat (j - 1 - 1) < unat (j - 1)"
    by (rule unat_pred_less)
  with 2 show ?case by simp
qed

declare last_stage_loop_inverse_q31.simps [simp del]

definition first_stage_inverse_q31 ::
  "nat \<Rightarrow> uint32_t \<Rightarrow> nat \<Rightarrow> uint32_t \<Rightarrow> heap \<Rightarrow> heap" where
  "first_stage_inverse_q31 pSrc fftLen pCoef twidCoefModifier h =
    (let n2 = drop_bit 2 fftLen;
         ia1 = 0;
         j = n2;
         pSi0 = pSrc;
         pSi1 = pSi0 + unat (2 * n2);
         pSi2 = pSi1 + unat (2 * n2);
         pSi3 = pSi2 + unat (2 * n2)
     in first_stage_loop_inverse_q31 pCoef twidCoefModifier pSi0 pSi1 pSi2 pSi3 ia1 j h)"

definition last_stage_inverse_q31 :: "nat \<Rightarrow> uint32_t \<Rightarrow> heap \<Rightarrow> heap" where
  "last_stage_inverse_q31 pSrc fftLen h =
    last_stage_loop_inverse_q31 pSrc (drop_bit 2 fftLen) h"

definition riscv_radix4_butterfly_inverse_q31 ::
  "nat \<Rightarrow> uint32_t \<Rightarrow> nat \<Rightarrow> uint32_t \<Rightarrow> heap \<Rightarrow> heap option" where
  "riscv_radix4_butterfly_inverse_q31 pSrc fftLen pCoef twidCoefModifier h =
    (let n2 = drop_bit 2 fftLen;
         h = first_stage_inverse_q31 pSrc fftLen pCoef twidCoefModifier h;
         twidCoefModifier = push_bit 2 twidCoefModifier
     in Option.bind
          (middle_stages_inverse_q31 pSrc fftLen pCoef twidCoefModifier n2 (fftLen div 4) h)
          (\<lambda>h. Some (last_stage_inverse_q31 pSrc fftLen h)))"

section \<open>One routine for both directions\<close>

text \<open>
  Written from the specification (section 4.2 and the design notes), not from the
  source: a single routine with a direction flag. The direction selects signs and
  nothing else: where the forward transform adds a cross term the inverse subtracts
  it (\<open>dir_add\<close>), and the other way round (\<open>dir_sub\<close>). Every shift stands in
  the routine once, with no reference to the direction.
\<close>

definition dir_add :: "bool \<Rightarrow> q31_t \<Rightarrow> q31_t \<Rightarrow> q31_t" where
  "dir_add ifft a b = (if ifft then a - b else a + b)"

definition dir_sub :: "bool \<Rightarrow> q31_t \<Rightarrow> q31_t \<Rightarrow> q31_t" where
  "dir_sub ifft a b = (if ifft then a + b else a - b)"

definition first_stage_butterfly_dir ::
  "bool \<Rightarrow> nat \<Rightarrow> nat \<Rightarrow> nat \<Rightarrow> nat \<Rightarrow> nat \<Rightarrow> uint32_t \<Rightarrow> heap \<Rightarrow> heap" where
  "first_stage_butterfly_dir ifft pCoef pSi0 pSi1 pSi2 pSi3 ia1 h =
    (let r1 = signed_drop_bit 4 (h pSi0) + signed_drop_bit 4 (h pSi2);
         r2 = signed_drop_bit 4 (h pSi0) - signed_drop_bit 4 (h pSi2);
         t1 = signed_drop_bit 4 (h pSi1) + signed_drop_bit 4 (h pSi3);
         s1 = signed_drop_bit 4 (h (pSi0 + 1)) + signed_drop_bit 4 (h (pSi2 + 1));
         s2 = signed_drop_bit 4 (h (pSi0 + 1)) - signed_drop_bit 4 (h (pSi2 + 1));
         h = h(pSi0 := r1 + t1);
         r1 = r1 - t1;
         t2 = signed_drop_bit 4 (h (pSi1 + 1)) + signed_drop_bit 4 (h (pSi3 + 1));
         h = h(pSi0 + 1 := s1 + t2);
         s1 = s1 - t2;
         t1 = signed_drop_bit 4 (h (pSi1 + 1)) - signed_drop_bit 4 (h (pSi3 + 1));
         t2 = signed_drop_bit 4 (h pSi1) - signed_drop_bit 4 (h pSi3);
         ia2 = 2 * ia1;
         co2 = h (pCoef + unat (ia2 * 2));
         si2 = h (pCoef + unat (ia2 * 2 + 1));
         h = h(pSi1 := push_bit 1 (dir_add ifft (mult_hi r1 co2) (mult_hi s1 si2)));
         h = h(pSi1 + 1 := push_bit 1 (dir_sub ifft (mult_hi s1 co2) (mult_hi r1 si2)));
         r1 = dir_add ifft r2 t1;
         r2 = dir_sub ifft r2 t1;
         s1 = dir_sub ifft s2 t2;
         s2 = dir_add ifft s2 t2;
         co1 = h (pCoef + unat (ia1 * 2));
         si1 = h (pCoef + unat (ia1 * 2 + 1));
         h = h(pSi2 := push_bit 1 (dir_add ifft (mult_hi r1 co1) (mult_hi s1 si1)));
         h = h(pSi2 + 1 := push_bit 1 (dir_sub ifft (mult_hi s1 co1) (mult_hi r1 si1)));
         ia3 = 3 * ia1;
         co3 = h (pCoef + unat (ia3 * 2));
         si3 = h (pCoef + unat (ia3 * 2 + 1));
         h = h(pSi3 := push_bit 1 (dir_add ifft (mult_hi r2 co3) (mult_hi s2 si3)));
         h = h(pSi3 + 1 := push_bit 1 (dir_sub ifft (mult_hi s2 co3) (mult_hi r2 si3)))
     in h)"

function first_stage_loop_dir ::
  "bool \<Rightarrow> nat \<Rightarrow> uint32_t \<Rightarrow> nat \<Rightarrow> nat \<Rightarrow> nat \<Rightarrow> nat \<Rightarrow> uint32_t \<Rightarrow> uint32_t \<Rightarrow>
   heap \<Rightarrow> heap" where
  "first_stage_loop_dir ifft pCoef twidCoefModifier pSi0 pSi1 pSi2 pSi3 ia1 j h =
    (let h' = first_stage_butterfly_dir ifft pCoef pSi0 pSi1 pSi2 pSi3 ia1 h;
         ia1' = ia1 + twidCoefModifier;
         j' = j - 1
     in if j' \<noteq> 0
        then first_stage_loop_dir ifft pCoef twidCoefModifier
               (pSi0 + 2) (pSi1 + 2) (pSi2 + 2) (pSi3 + 2) ia1' j' h'
        else h')"
  by pat_completeness auto
termination
proof (relation "measure (\<lambda>(ifft, pCoef, m, p0, p1, p2, p3, ia1, j, h). unat (j - 1))",
    goal_cases)
  case 1
  show ?case by simp
next
  case (2 ifft pCoef m p0 p1 p2 p3 ia1 j h x xa xb)
  then have "j - 1 \<noteq> 0" by simp
  then have "unat (j - 1 - 1) < unat (j - 1)"
    by (rule unat_pred_less)
  with 2 show ?case by simp
qed

declare first_stage_loop_dir.simps [simp del]

definition middle_stage_butterfly_dir ::
  "bool \<Rightarrow> q31_t \<Rightarrow> q31_t \<Rightarrow> q31_t \<Rightarrow> q31_t \<Rightarrow> q31_t \<Rightarrow> q31_t \<Rightarrow>
   nat \<Rightarrow> nat \<Rightarrow> nat \<Rightarrow> nat \<Rightarrow> heap \<Rightarrow> heap" where
  "middle_stage_butterfly_dir ifft co1 si1 co2 si2 co3 si3 pSi0 pSi1 pSi2 pSi3 h =
    (let r1 = h pSi0 + h pSi2;
         r2 = h pSi0 - h pSi2;
         s1 = h (pSi0 + 1) + h (pSi2 + 1);
         s2 = h (pSi0 + 1) - h (pSi2 + 1);
         t1 = h pSi1 + h pSi3;
         h = h(pSi0 := signed_drop_bit 2 (r1 + t1));
         r1 = r1 - t1;
         t2 = h (pSi1 + 1) + h (pSi3 + 1);
         h = h(pSi0 + 1 := signed_drop_bit 2 (s1 + t2));
         s1 = s1 - t2;
         t1 = h (pSi1 + 1) - h (pSi3 + 1);
         t2 = h pSi1 - h pSi3;
         h = h(pSi1 := signed_drop_bit 1 (dir_add ifft (mult_hi r1 co2) (mult_hi s1 si2)));
         h = h(pSi1 + 1 :=
               signed_drop_bit 1 (dir_sub ifft (mult_hi s1 co2) (mult_hi r1 si2)));
         r1 = dir_add ifft r2 t1;
         r2 = dir_sub ifft r2 t1;
         s1 = dir_sub ifft s2 t2;
         s2 = dir_add ifft s2 t2;
         h = h(pSi2 := signed_drop_bit 1 (dir_add ifft (mult_hi r1 co1) (mult_hi s1 si1)));
         h = h(pSi2 + 1 :=
               signed_drop_bit 1 (dir_sub ifft (mult_hi s1 co1) (mult_hi r1 si1)));
         h = h(pSi3 := signed_drop_bit 1 (dir_add ifft (mult_hi r2 co3) (mult_hi s2 si3)));
         h = h(pSi3 + 1 :=
               signed_drop_bit 1 (dir_sub ifft (mult_hi s2 co3) (mult_hi r2 si3)))
     in h)"

partial_function (option) middle_i0_loop_dir ::
  "bool \<Rightarrow> uint32_t \<Rightarrow> uint32_t \<Rightarrow> q31_t \<Rightarrow> q31_t \<Rightarrow> q31_t \<Rightarrow> q31_t \<Rightarrow> q31_t \<Rightarrow> q31_t \<Rightarrow>
   nat \<Rightarrow> nat \<Rightarrow> nat \<Rightarrow> nat \<Rightarrow> uint32_t \<Rightarrow> heap \<Rightarrow> heap option" where
  "middle_i0_loop_dir ifft fftLen n1 co1 si1 co2 si2 co3 si3 pSi0 pSi1 pSi2 pSi3 i0 h =
    (if i0 < fftLen
     then middle_i0_loop_dir ifft fftLen n1 co1 si1 co2 si2 co3 si3
            (pSi0 + unat (2 * n1)) (pSi1 + unat (2 * n1))
            (pSi2 + unat (2 * n1)) (pSi3 + unat (2 * n1)) (i0 + n1)
            (middle_stage_butterfly_dir ifft co1 si1 co2 si2 co3 si3
               pSi0 pSi1 pSi2 pSi3 h)
     else Some h)"

partial_function (option) middle_j_loop_dir ::
  "bool \<Rightarrow> nat \<Rightarrow> uint32_t \<Rightarrow> nat \<Rightarrow> uint32_t \<Rightarrow> uint32_t \<Rightarrow> uint32_t \<Rightarrow> uint32_t \<Rightarrow>
   uint32_t \<Rightarrow> heap \<Rightarrow> heap option" where
  "middle_j_loop_dir ifft pSrc fftLen pCoef twidCoefModifier n1 n2 ia1 j h =
    (if j \<le> n2 - 1
     then
       (let ia2 = ia1 + ia1;
            ia3 = ia2 + ia1;
            co1 = h (pCoef + unat (ia1 * 2));
            si1 = h (pCoef + unat (ia1 * 2 + 1));
            co2 = h (pCoef + unat (ia2 * 2));
            si2 = h (pCoef + unat (ia2 * 2 + 1));
            co3 = h (pCoef + unat (ia3 * 2));
            si3 = h (pCoef + unat (ia3 * 2 + 1));
            ia1' = ia1 + twidCoefModifier;
            pSi0 = pSrc + unat (2 * j);
            pSi1 = pSi0 + unat (2 * n2);
            pSi2 = pSi1 + unat (2 * n2);
            pSi3 = pSi2 + unat (2 * n2)
        in Option.bind
             (middle_i0_loop_dir ifft fftLen n1 co1 si1 co2 si2 co3 si3
                pSi0 pSi1 pSi2 pSi3 j h)
             (\<lambda>h'. middle_j_loop_dir ifft pSrc fftLen pCoef twidCoefModifier n1 n2 ia1'
                      (j + 1) h'))
     else Some h)"

partial_function (option) middle_stages_dir ::
  "bool \<Rightarrow> nat \<Rightarrow> uint32_t \<Rightarrow> nat \<Rightarrow> uint32_t \<Rightarrow> uint32_t \<Rightarrow> uint32_t \<Rightarrow> heap \<Rightarrow>
   heap option" where
  "middle_stages_dir ifft pSrc fftLen pCoef twidCoefModifier n2 k h =
    (if 4 < k
     then
       (let n1 = n2;
            n2' = drop_bit 2 n2
        in Option.bind
             (middle_j_loop_dir ifft pSrc fftLen pCoef twidCoefModifier n1 n2' 0 0 h)
             (\<lambda>h'. middle_stages_dir ifft pSrc fftLen pCoef (push_bit 2 twidCoefModifier)
                      n2' (drop_bit 2 k) h'))
     else Some h)"

definition last_stage_butterfly_dir :: "bool \<Rightarrow> nat \<Rightarrow> heap \<Rightarrow> heap" where
  "last_stage_butterfly_dir ifft ptr1 h =
    (let xa = h ptr1;
         ya = h (ptr1 + 1);
         xb = h (ptr1 + 2);
         yb = h (ptr1 + 3);
         xc = h (ptr1 + 4);
         yc = h (ptr1 + 5);
         xd = h (ptr1 + 6);
         yd = h (ptr1 + 7);
         xa_out = xa + xb + xc + xd;
         ya_out = ya + yb + yc + yd;
         h = h(ptr1 := xa_out);
         h = h(ptr1 + 1 := ya_out);
         xc_out = xa - xb + xc - xd;
         yc_out = ya - yb + yc - yd;
         h = h(ptr1 + 2 := xc_out);
         h = h(ptr1 + 3 := yc_out);
         xb_out = dir_sub ifft (dir_add ifft xa yb - xc) yd;
         yb_out = dir_add ifft (dir_sub ifft ya xb - yc) xd;
         h = h(ptr1 + 4 := xb_out);
         h = h(ptr1 + 5 := yb_out);
         xd_out = dir_add ifft (dir_sub ifft xa yb - xc) yd;
         yd_out = dir_sub ifft (dir_add ifft ya xb - yc) xd;
         h = h(ptr1 + 6 := xd_out);
         h = h(ptr1 + 7 := yd_out)
     in h)"

function last_stage_loop_dir :: "bool \<Rightarrow> nat \<Rightarrow> uint32_t \<Rightarrow> heap \<Rightarrow> heap" where
  "last_stage_loop_dir ifft ptr1 j h =
    (let h' = last_stage_butterfly_dir ifft ptr1 h;
         j' = j - 1
     in if j' \<noteq> 0 then last_stage_loop_dir ifft (ptr1 + 8) j' h' else h')"
  by pat_completeness auto
termination
proof (relation "measure (\<lambda>(ifft, ptr1, j, h). unat (j - 1))", goal_cases)
  case 1
  show ?case by simp
next
  case (2 ifft ptr1 j h x xa)
  then have "j - 1 \<noteq> 0" by simp
  then have "unat (j - 1 - 1) < unat (j - 1)"
    by (rule unat_pred_less)
  with 2 show ?case by simp
qed

declare last_stage_loop_dir.simps [simp del]

definition first_stage_dir ::
  "bool \<Rightarrow> nat \<Rightarrow> uint32_t \<Rightarrow> nat \<Rightarrow> uint32_t \<Rightarrow> heap \<Rightarrow> heap" where
  "first_stage_dir ifft pSrc fftLen pCoef twidCoefModifier h =
    (let n2 = drop_bit 2 fftLen;
         ia1 = 0;
         j = n2;
         pSi0 = pSrc;
         pSi1 = pSi0 + unat (2 * n2);
         pSi2 = pSi1 + unat (2 * n2);
         pSi3 = pSi2 + unat (2 * n2)
     in first_stage_loop_dir ifft pCoef twidCoefModifier pSi0 pSi1 pSi2 pSi3 ia1 j h)"

definition last_stage_dir :: "bool \<Rightarrow> nat \<Rightarrow> uint32_t \<Rightarrow> heap \<Rightarrow> heap" where
  "last_stage_dir ifft pSrc fftLen h =
    last_stage_loop_dir ifft pSrc (drop_bit 2 fftLen) h"

definition radix4_butterfly_dir ::
  "bool \<Rightarrow> nat \<Rightarrow> uint32_t \<Rightarrow> nat \<Rightarrow> uint32_t \<Rightarrow> heap \<Rightarrow> heap option" where
  "radix4_butterfly_dir ifft pSrc fftLen pCoef twidCoefModifier h =
    (let n2 = drop_bit 2 fftLen;
         h = first_stage_dir ifft pSrc fftLen pCoef twidCoefModifier h;
         twidCoefModifier = push_bit 2 twidCoefModifier
     in Option.bind
          (middle_stages_dir ifft pSrc fftLen pCoef twidCoefModifier n2 (fftLen div 4) h)
          (\<lambda>h. Some (last_stage_dir ifft pSrc fftLen h)))"

section \<open>Transform dispatcher\<close>

text \<open>
  The instance structure \<^verbatim>\<open>riscv_cfft_radix4_instance_q31\<close> is declared in
  \<^verbatim>\<open>riscv_math.h\<close>, which is not among the sources. The record has the fields that
  \<^verbatim>\<open>riscv_cfft_radix4_q31\<close> reads, each at the type of the parameter it is passed to
  (the two flags, which are only compared with \<^verbatim>\<open>1u\<close>, as unsigned integers).
\<close>

record riscv_cfft_radix4_instance_q31 =
  fftLen :: uint32_t
  ifftFlag :: uint32_t
  bitReverseFlag :: uint32_t
  pTwiddle :: nat
  pBitRevTable :: nat
  twidCoefModifier :: uint32_t
  bitRevFactor :: "16 word"

text \<open>
  \<^verbatim>\<open>riscv_bitreversal_q31\<close> is declared in the file but defined elsewhere: the
  dispatcher takes it as its first argument. The structure is passed through a
  pointer to \<^verbatim>\<open>const\<close> and only read; the function returns \<^verbatim>\<open>void\<close>, so the
  result is the store alone.
\<close>

definition riscv_cfft_radix4_q31 ::
  "(nat \<Rightarrow> uint32_t \<Rightarrow> 16 word \<Rightarrow> nat \<Rightarrow> heap \<Rightarrow> heap option) \<Rightarrow>
   riscv_cfft_radix4_instance_q31 \<Rightarrow> nat \<Rightarrow> heap \<Rightarrow> heap option" where
  "riscv_cfft_radix4_q31 riscv_bitreversal_q31 S pSrc h =
    Option.bind
      (if ifftFlag S = 1
       then riscv_radix4_butterfly_inverse_q31 pSrc (fftLen S) (pTwiddle S) (twidCoefModifier S) h
       else riscv_radix4_butterfly_q31 pSrc (fftLen S) (pTwiddle S) (twidCoefModifier S) h)
      (\<lambda>h. if bitReverseFlag S = 1
            then riscv_bitreversal_q31 pSrc (fftLen S) (bitRevFactor S) (pBitRevTable S) h
            else Some h)"

section \<open>The first stage with every signed addition checked\<close>

text \<open>
  In C a signed addition or subtraction whose exact result is not a 32-bit two's
  complement number overflows. \<open>add_q31\<close> and \<open>sub_q31\<close> return the wrapped result
  only when the exact one is representable, and \<open>None\<close> otherwise. The two
  definitions after them are the first-stage bodies of the forward and of the inverse
  routine again, statement by statement, with every \<^verbatim>\<open>+\<close> and \<^verbatim>\<open>-\<close> on \<^verbatim>\<open>q31_t\<close>
  values replaced by the checked operation (the index arithmetic is unsigned and
  stays as it is).
\<close>

definition add_q31 :: "q31_t \<Rightarrow> q31_t \<Rightarrow> q31_t option" where
  "add_q31 a b =
    (if - (2 ^ 31) \<le> sint a + sint b \<and> sint a + sint b < 2 ^ 31 then Some (a + b) else None)"

definition sub_q31 :: "q31_t \<Rightarrow> q31_t \<Rightarrow> q31_t option" where
  "sub_q31 a b =
    (if - (2 ^ 31) \<le> sint a - sint b \<and> sint a - sint b < 2 ^ 31 then Some (a - b) else None)"

definition first_stage_butterfly_q31_checked ::
  "nat \<Rightarrow> nat \<Rightarrow> nat \<Rightarrow> nat \<Rightarrow> nat \<Rightarrow> uint32_t \<Rightarrow> heap \<Rightarrow> heap option" where
  "first_stage_butterfly_q31_checked pCoef pSi0 pSi1 pSi2 pSi3 ia1 h = do {
     r1 \<leftarrow> add_q31 (signed_drop_bit 4 (h pSi0)) (signed_drop_bit 4 (h pSi2));
     r2 \<leftarrow> sub_q31 (signed_drop_bit 4 (h pSi0)) (signed_drop_bit 4 (h pSi2));
     t1 \<leftarrow> add_q31 (signed_drop_bit 4 (h pSi1)) (signed_drop_bit 4 (h pSi3));
     s1 \<leftarrow> add_q31 (signed_drop_bit 4 (h (pSi0 + 1))) (signed_drop_bit 4 (h (pSi2 + 1)));
     s2 \<leftarrow> sub_q31 (signed_drop_bit 4 (h (pSi0 + 1))) (signed_drop_bit 4 (h (pSi2 + 1)));
     xa_out \<leftarrow> add_q31 r1 t1;
     let h = h(pSi0 := xa_out);
     r1 \<leftarrow> sub_q31 r1 t1;
     t2 \<leftarrow> add_q31 (signed_drop_bit 4 (h (pSi1 + 1))) (signed_drop_bit 4 (h (pSi3 + 1)));
     ya_out \<leftarrow> add_q31 s1 t2;
     let h = h(pSi0 + 1 := ya_out);
     s1 \<leftarrow> sub_q31 s1 t2;
     t1 \<leftarrow> sub_q31 (signed_drop_bit 4 (h (pSi1 + 1))) (signed_drop_bit 4 (h (pSi3 + 1)));
     t2 \<leftarrow> sub_q31 (signed_drop_bit 4 (h pSi1)) (signed_drop_bit 4 (h pSi3));
     let ia2 = 2 * ia1;
     let co2 = h (pCoef + unat (ia2 * 2));
     let si2 = h (pCoef + unat (ia2 * 2 + 1));
     xc_out \<leftarrow> add_q31 (mult_hi r1 co2) (mult_hi s1 si2);
     let h = h(pSi1 := push_bit 1 xc_out);
     yc_out \<leftarrow> sub_q31 (mult_hi s1 co2) (mult_hi r1 si2);
     let h = h(pSi1 + 1 := push_bit 1 yc_out);
     r1 \<leftarrow> add_q31 r2 t1;
     r2 \<leftarrow> sub_q31 r2 t1;
     s1 \<leftarrow> sub_q31 s2 t2;
     s2 \<leftarrow> add_q31 s2 t2;
     let co1 = h (pCoef + unat (ia1 * 2));
     let si1 = h (pCoef + unat (ia1 * 2 + 1));
     xb_out \<leftarrow> add_q31 (mult_hi r1 co1) (mult_hi s1 si1);
     let h = h(pSi2 := push_bit 1 xb_out);
     yb_out \<leftarrow> sub_q31 (mult_hi s1 co1) (mult_hi r1 si1);
     let h = h(pSi2 + 1 := push_bit 1 yb_out);
     let ia3 = 3 * ia1;
     let co3 = h (pCoef + unat (ia3 * 2));
     let si3 = h (pCoef + unat (ia3 * 2 + 1));
     xd_out \<leftarrow> add_q31 (mult_hi r2 co3) (mult_hi s2 si3);
     let h = h(pSi3 := push_bit 1 xd_out);
     yd_out \<leftarrow> sub_q31 (mult_hi s2 co3) (mult_hi r2 si3);
     let h = h(pSi3 + 1 := push_bit 1 yd_out);
     Some h
   }"

definition first_stage_butterfly_inverse_q31_checked ::
  "nat \<Rightarrow> nat \<Rightarrow> nat \<Rightarrow> nat \<Rightarrow> nat \<Rightarrow> uint32_t \<Rightarrow> heap \<Rightarrow> heap option" where
  "first_stage_butterfly_inverse_q31_checked pCoef pSi0 pSi1 pSi2 pSi3 ia1 h = do {
     r1 \<leftarrow> add_q31 (signed_drop_bit 4 (h pSi0)) (signed_drop_bit 4 (h pSi2));
     r2 \<leftarrow> sub_q31 (signed_drop_bit 4 (h pSi0)) (signed_drop_bit 4 (h pSi2));
     t1 \<leftarrow> add_q31 (signed_drop_bit 4 (h pSi1)) (signed_drop_bit 4 (h pSi3));
     s1 \<leftarrow> add_q31 (signed_drop_bit 4 (h (pSi0 + 1))) (signed_drop_bit 4 (h (pSi2 + 1)));
     s2 \<leftarrow> sub_q31 (signed_drop_bit 4 (h (pSi0 + 1))) (signed_drop_bit 4 (h (pSi2 + 1)));
     xa_out \<leftarrow> add_q31 r1 t1;
     let h = h(pSi0 := xa_out);
     r1 \<leftarrow> sub_q31 r1 t1;
     t2 \<leftarrow> add_q31 (signed_drop_bit 4 (h (pSi1 + 1))) (signed_drop_bit 4 (h (pSi3 + 1)));
     ya_out \<leftarrow> add_q31 s1 t2;
     let h = h(pSi0 + 1 := ya_out);
     s1 \<leftarrow> sub_q31 s1 t2;
     t1 \<leftarrow> sub_q31 (signed_drop_bit 4 (h (pSi1 + 1))) (signed_drop_bit 4 (h (pSi3 + 1)));
     t2 \<leftarrow> sub_q31 (signed_drop_bit 4 (h pSi1)) (signed_drop_bit 4 (h pSi3));
     let ia2 = 2 * ia1;
     let co2 = h (pCoef + unat (ia2 * 2));
     let si2 = h (pCoef + unat (ia2 * 2 + 1));
     xc_out \<leftarrow> sub_q31 (mult_hi r1 co2) (mult_hi s1 si2);
     let h = h(pSi1 := push_bit 1 xc_out);
     yc_out \<leftarrow> add_q31 (mult_hi s1 co2) (mult_hi r1 si2);
     let h = h(pSi1 + 1 := push_bit 1 yc_out);
     r1 \<leftarrow> sub_q31 r2 t1;
     r2 \<leftarrow> add_q31 r2 t1;
     s1 \<leftarrow> add_q31 s2 t2;
     s2 \<leftarrow> sub_q31 s2 t2;
     let co1 = h (pCoef + unat (ia1 * 2));
     let si1 = h (pCoef + unat (ia1 * 2 + 1));
     xb_out \<leftarrow> sub_q31 (mult_hi r1 co1) (mult_hi s1 si1);
     let h = h(pSi2 := push_bit 1 xb_out);
     yb_out \<leftarrow> add_q31 (mult_hi s1 co1) (mult_hi r1 si1);
     let h = h(pSi2 + 1 := push_bit 1 yb_out);
     let ia3 = 3 * ia1;
     let co3 = h (pCoef + unat (ia3 * 2));
     let si3 = h (pCoef + unat (ia3 * 2 + 1));
     xd_out \<leftarrow> sub_q31 (mult_hi r2 co3) (mult_hi s2 si3);
     let h = h(pSi3 := push_bit 1 xd_out);
     yd_out \<leftarrow> add_q31 (mult_hi s2 co3) (mult_hi r2 si3);
     let h = h(pSi3 + 1 := push_bit 1 yd_out);
     Some h
   }"

section \<open>The source routines are instances of the one routine\<close>

lemma first_stage_butterfly_q31_dir:
  "first_stage_butterfly_q31 = first_stage_butterfly_dir False"
  by (intro ext) (simp add: first_stage_butterfly_q31_def first_stage_butterfly_dir_def
      dir_add_def dir_sub_def Let_def)

lemma first_stage_butterfly_inverse_q31_dir:
  "first_stage_butterfly_inverse_q31 = first_stage_butterfly_dir True"
  by (intro ext) (simp add: first_stage_butterfly_inverse_q31_def first_stage_butterfly_dir_def
      dir_add_def dir_sub_def Let_def)

lemma middle_stage_butterfly_q31_dir:
  "middle_stage_butterfly_q31 = middle_stage_butterfly_dir False"
  by (intro ext) (simp add: middle_stage_butterfly_q31_def middle_stage_butterfly_dir_def
      dir_add_def dir_sub_def Let_def)

lemma middle_stage_butterfly_inverse_q31_dir:
  "middle_stage_butterfly_inverse_q31 = middle_stage_butterfly_dir True"
  by (intro ext) (simp add: middle_stage_butterfly_inverse_q31_def
      middle_stage_butterfly_dir_def dir_add_def dir_sub_def Let_def)

lemma last_stage_butterfly_q31_dir:
  "last_stage_butterfly_q31 = last_stage_butterfly_dir False"
  by (intro ext) (simp add: last_stage_butterfly_q31_def last_stage_butterfly_dir_def
      dir_add_def dir_sub_def Let_def)

lemma last_stage_butterfly_inverse_q31_dir:
  "last_stage_butterfly_inverse_q31 = last_stage_butterfly_dir True"
  by (intro ext) (simp add: last_stage_butterfly_inverse_q31_def last_stage_butterfly_dir_def
      dir_add_def dir_sub_def Let_def)

lemma first_stage_loop_q31_dir:
  "first_stage_loop_q31 pCoef m p0 p1 p2 p3 ia1 j h =
   first_stage_loop_dir False pCoef m p0 p1 p2 p3 ia1 j h"
proof (induction pCoef m p0 p1 p2 p3 ia1 j h rule: first_stage_loop_q31.induct)
  case (1 pCoef m p0 p1 p2 p3 ia1 j h)
  show ?case
    apply (subst first_stage_loop_q31.simps)
    apply (subst first_stage_loop_dir.simps)
    using 1 by (simp add: Let_def first_stage_butterfly_q31_dir)
qed

lemma first_stage_loop_inverse_q31_dir:
  "first_stage_loop_inverse_q31 pCoef m p0 p1 p2 p3 ia1 j h =
   first_stage_loop_dir True pCoef m p0 p1 p2 p3 ia1 j h"
proof (induction pCoef m p0 p1 p2 p3 ia1 j h rule: first_stage_loop_inverse_q31.induct)
  case (1 pCoef m p0 p1 p2 p3 ia1 j h)
  show ?case
    apply (subst first_stage_loop_inverse_q31.simps)
    apply (subst first_stage_loop_dir.simps)
    using 1 by (simp add: Let_def first_stage_butterfly_inverse_q31_dir)
qed

lemma last_stage_loop_q31_dir:
  "last_stage_loop_q31 ptr1 j h = last_stage_loop_dir False ptr1 j h"
proof (induction ptr1 j h rule: last_stage_loop_q31.induct)
  case (1 ptr1 j h)
  show ?case
    apply (subst last_stage_loop_q31.simps)
    apply (subst last_stage_loop_dir.simps)
    using 1 by (simp add: Let_def last_stage_butterfly_q31_dir)
qed

lemma last_stage_loop_inverse_q31_dir:
  "last_stage_loop_inverse_q31 ptr1 j h = last_stage_loop_dir True ptr1 j h"
proof (induction ptr1 j h rule: last_stage_loop_inverse_q31.induct)
  case (1 ptr1 j h)
  show ?case
    apply (subst last_stage_loop_inverse_q31.simps)
    apply (subst last_stage_loop_dir.simps)
    using 1 by (simp add: Let_def last_stage_butterfly_inverse_q31_dir)
qed

lemma first_stage_q31_dir: "first_stage_q31 = first_stage_dir False"
  by (intro ext) (simp add: first_stage_q31_def first_stage_dir_def first_stage_loop_q31_dir)

lemma first_stage_inverse_q31_dir: "first_stage_inverse_q31 = first_stage_dir True"
  by (intro ext)
    (simp add: first_stage_inverse_q31_def first_stage_dir_def first_stage_loop_inverse_q31_dir)

lemma last_stage_q31_dir: "last_stage_q31 = last_stage_dir False"
  by (intro ext) (simp add: last_stage_q31_def last_stage_dir_def last_stage_loop_q31_dir)

lemma last_stage_inverse_q31_dir: "last_stage_inverse_q31 = last_stage_dir True"
  by (intro ext)
    (simp add: last_stage_inverse_q31_def last_stage_dir_def last_stage_loop_inverse_q31_dir)

section \<open>Counters and offsets\<close>

lemma unat_of_nat32: "n < 2 ^ 32 \<Longrightarrow> unat (of_nat n :: 32 word) = n"
  by (simp add: unat_of_nat)

lemma of_nat32_eq_0: "n < 2 ^ 32 \<Longrightarrow> (of_nat n :: 32 word) = 0 \<longleftrightarrow> n = 0"
  using unat_of_nat32 [of n] by (auto simp del: of_nat_eq_0_iff)

section \<open>First stage: the loop as a number of passes\<close>

text \<open>
  \<open>n\<close> passes of the first-stage body, the cursors moving on by two cells and the
  coefficient index by the modifier after each: what the
  \<^verbatim>\<open>do ... while(--j)\<close> loop does when it is entered with \<open>j = n\<close>, \<open>0 < n < 2^32\<close>.
\<close>

fun first_stage_passes ::
  "bool \<Rightarrow> nat \<Rightarrow> uint32_t \<Rightarrow> nat \<Rightarrow> nat \<Rightarrow> nat \<Rightarrow> nat \<Rightarrow> uint32_t \<Rightarrow> nat \<Rightarrow> heap \<Rightarrow> heap" where
  "first_stage_passes ifft pCoef m p0 p1 p2 p3 ia1 0 h = h"
| "first_stage_passes ifft pCoef m p0 p1 p2 p3 ia1 (Suc n) h =
     first_stage_passes ifft pCoef m (p0 + 2) (p1 + 2) (p2 + 2) (p3 + 2) (ia1 + m) n
       (first_stage_butterfly_dir ifft pCoef p0 p1 p2 p3 ia1 h)"

lemma first_stage_loop_dir_passes:
  "n < 2 ^ 32 \<Longrightarrow>
   first_stage_loop_dir ifft pCoef m p0 p1 p2 p3 ia1 (of_nat (Suc n)) h =
   first_stage_passes ifft pCoef m p0 p1 p2 p3 ia1 (Suc n) h"
proof (induction n arbitrary: p0 p1 p2 p3 ia1 h)
  case 0
  show ?case
    by (subst first_stage_loop_dir.simps) simp
next
  case (Suc n)
  then have n: "n < 2 ^ 32" by simp
  have nz: "(of_nat (Suc n) :: 32 word) \<noteq> 0"
    using Suc.prems by (simp only: of_nat32_eq_0)
  have "first_stage_loop_dir ifft pCoef m p0 p1 p2 p3 ia1 (of_nat (Suc (Suc n))) h =
        first_stage_loop_dir ifft pCoef m (p0 + 2) (p1 + 2) (p2 + 2) (p3 + 2) (ia1 + m)
          (of_nat (Suc n)) (first_stage_butterfly_dir ifft pCoef p0 p1 p2 p3 ia1 h)"
    using nz by (subst first_stage_loop_dir.simps) (simp add: Let_def)
  then show ?case
    using Suc.IH [OF n] by simp
qed

lemma first_stage_butterfly_dir_frame:
  "a \<noteq> p0 \<Longrightarrow> a \<noteq> p0 + 1 \<Longrightarrow> a \<noteq> p1 \<Longrightarrow> a \<noteq> p1 + 1 \<Longrightarrow>
   a \<noteq> p2 \<Longrightarrow> a \<noteq> p2 + 1 \<Longrightarrow> a \<noteq> p3 \<Longrightarrow> a \<noteq> p3 + 1 \<Longrightarrow>
   first_stage_butterfly_dir ifft pCoef p0 p1 p2 p3 ia1 h a = h a"
  by (simp add: first_stage_butterfly_dir_def Let_def)

lemma first_stage_passes_frame:
  "(\<And>q. q \<in> {p0, p1, p2, p3} \<Longrightarrow> a < q \<or> q + 2 * n \<le> a) \<Longrightarrow>
   first_stage_passes ifft pCoef m p0 p1 p2 p3 ia1 n h a = h a"
proof (induction n arbitrary: p0 p1 p2 p3 ia1 h)
  case 0
  show ?case by simp
next
  case (Suc n)
  have *: "a < q \<or> q + 2 * Suc n \<le> a" if "q \<in> {p0, p1, p2, p3}" for q
    using Suc.prems that by blast
  have "first_stage_passes ifft pCoef m (p0 + 2) (p1 + 2) (p2 + 2) (p3 + 2) (ia1 + m) n
          (first_stage_butterfly_dir ifft pCoef p0 p1 p2 p3 ia1 h) a =
        first_stage_butterfly_dir ifft pCoef p0 p1 p2 p3 ia1 h a"
    apply (rule Suc.IH)
    using * by fastforce
  also have "\<dots> = h a"
    apply (rule first_stage_butterfly_dir_frame)
    using * [of p0] * [of p1] * [of p2] * [of p3] by auto
  finally show ?case by simp
qed

lemma first_stage_butterfly_dir_local:
  assumes cells: "p0 + 1 < p1" "p1 + 1 < p2" "p2 + 1 < p3"
    and apart: "\<And>w :: 32 word. pCoef + unat w < p0 \<or> p3 + 1 < pCoef + unat w"
    and agree: "\<And>c. c \<in> {p0, p0 + 1, p1, p1 + 1, p2, p2 + 1, p3, p3 + 1} \<Longrightarrow> h' c = h c"
    and tbl: "\<And>w :: 32 word. h' (pCoef + unat w) = h (pCoef + unat w)"
    and a: "a \<in> {p0, p0 + 1, p1, p1 + 1, p2, p2 + 1, p3, p3 + 1}"
  shows "first_stage_butterfly_dir ifft pCoef p0 p1 p2 p3 ia1 h' a =
         first_stage_butterfly_dir ifft pCoef p0 p1 p2 p3 ia1 h a"
proof -
  have ne: "pCoef + unat w \<noteq> p0" "pCoef + unat w \<noteq> Suc p0"
    "pCoef + unat w \<noteq> p1" "pCoef + unat w \<noteq> Suc p1"
    "pCoef + unat w \<noteq> p2" "pCoef + unat w \<noteq> Suc p2"
    "pCoef + unat w \<noteq> p3" "pCoef + unat w \<noteq> Suc p3" for w :: "32 word"
    using apart [of w] cells by auto
  have ag: "h' p0 = h p0" "h' (Suc p0) = h (Suc p0)" "h' p1 = h p1" "h' (Suc p1) = h (Suc p1)"
    "h' p2 = h p2" "h' (Suc p2) = h (Suc p2)" "h' p3 = h p3" "h' (Suc p3) = h (Suc p3)"
    using agree by auto
  show ?thesis
    using a cells
    by (auto simp add: first_stage_butterfly_dir_def Let_def ne ag tbl)
qed

lemma first_stage_passes_value:
  assumes "p0 + 2 * n \<le> p1" "p1 + 2 * n \<le> p2" "p2 + 2 * n \<le> p3"
    and "\<And>w :: 32 word. pCoef + unat w < p0 \<or> p3 + 2 * n \<le> pCoef + unat w"
    and "i < n"
    and "a \<in> {p0 + 2 * i, p0 + 2 * i + 1, p1 + 2 * i, p1 + 2 * i + 1,
               p2 + 2 * i, p2 + 2 * i + 1, p3 + 2 * i, p3 + 2 * i + 1}"
  shows "first_stage_passes ifft pCoef m p0 p1 p2 p3 ia1 n h a =
         first_stage_butterfly_dir ifft pCoef (p0 + 2 * i) (p1 + 2 * i) (p2 + 2 * i) (p3 + 2 * i)
           (ia1 + of_nat i * m) h a"
  using assms
proof (induction n arbitrary: p0 p1 p2 p3 ia1 h i)
  case 0
  then show ?case by simp
next
  case (Suc n)
  let ?B = "first_stage_butterfly_dir ifft pCoef p0 p1 p2 p3 ia1 h"
  note apart = Suc.prems(4)
  show ?case
  proof (cases i)
    case 0
    have "first_stage_passes ifft pCoef m (p0 + 2) (p1 + 2) (p2 + 2) (p3 + 2) (ia1 + m) n ?B a
          = ?B a"
      apply (rule first_stage_passes_frame)
      using Suc.prems(1,2,3,6) 0 by auto
    then show ?thesis using 0 by simp
  next
    case (Suc i')
    have i': "i' < n" using Suc.prems(5) Suc by simp
    have ap': "pCoef + unat w < p0 + 2 \<or> p3 + 2 + 2 * n \<le> pCoef + unat w" for w :: "32 word"
      using apart [of w] by auto
    have a': "a \<in> {p0 + 2 + 2 * i', p0 + 2 + 2 * i' + 1, p1 + 2 + 2 * i', p1 + 2 + 2 * i' + 1,
               p2 + 2 + 2 * i', p2 + 2 + 2 * i' + 1, p3 + 2 + 2 * i', p3 + 2 + 2 * i' + 1}"
      using Suc.prems(6) Suc by simp
    have "first_stage_passes ifft pCoef m (p0 + 2) (p1 + 2) (p2 + 2) (p3 + 2) (ia1 + m) n ?B a =
          first_stage_butterfly_dir ifft pCoef (p0 + 2 + 2 * i') (p1 + 2 + 2 * i')
            (p2 + 2 + 2 * i') (p3 + 2 + 2 * i') (ia1 + m + of_nat i' * m) ?B a"
      apply (rule Suc.IH [OF _ _ _ ap' i' a'])
      using Suc.prems(1,2,3) by auto
    also have "\<dots> = first_stage_butterfly_dir ifft pCoef (p0 + 2 + 2 * i') (p1 + 2 + 2 * i')
            (p2 + 2 + 2 * i') (p3 + 2 + 2 * i') (ia1 + m + of_nat i' * m) h a"
    proof (rule first_stage_butterfly_dir_local [OF _ _ _ _ _ _ a'], goal_cases)
      case 1 show ?case using Suc.prems(1) i' by simp
    next
      case 2 show ?case using Suc.prems(2) i' by simp
    next
      case 3 show ?case using Suc.prems(3) i' by simp
    next
      case (4 w) show ?case using apart [of w] i' by auto
    next
      case (5 c)
      show ?case
        apply (rule first_stage_butterfly_dir_frame)
        using 5 Suc.prems(1,2,3) i' by auto
    next
      case (6 w)
      show ?case
        apply (rule first_stage_butterfly_dir_frame)
        using apart [of w] Suc.prems(1,2,3) by auto
    qed
    finally show ?thesis
      using Suc by (simp add: algebra_simps)
  qed
qed

lemma drop_bit_2_of_nat32:
  "N < 2 ^ 32 \<Longrightarrow> drop_bit 2 (of_nat N :: 32 word) = of_nat (N div 4)"
proof -
  assume N: "N < 2 ^ 32"
  then have "N div 4 < 2 ^ 32" by simp
  then have "unat (of_nat (N div 4) :: 32 word) = N div 4" by (rule unat_of_nat32)
  moreover have "unat (drop_bit 2 (of_nat N :: 32 word)) = N div 4"
    using N by (simp add: drop_bit_eq_div unat_div unat_of_nat32)
  ultimately show ?thesis by (simp only: word_unat_eq_iff)
qed

lemma unat_2_times_of_nat32:
  "n < 2 ^ 31 \<Longrightarrow> unat (2 * of_nat n :: 32 word) = 2 * n"
proof -
  assume n: "n < 2 ^ 31"
  have "(2 * of_nat n :: 32 word) = of_nat (2 * n)" by simp
  moreover have "2 * n < 2 ^ 32" using n by simp
  ultimately show ?thesis by (simp only: unat_of_nat32)
qed

lemma first_stage_dir_passes:
  assumes "4 \<le> N" "N < 2 ^ 32"
  shows "first_stage_dir ifft pSrc (of_nat N) pCoef m h =
         first_stage_passes ifft pCoef m pSrc (pSrc + 2 * (N div 4)) (pSrc + 4 * (N div 4))
           (pSrc + 6 * (N div 4)) 0 (N div 4) h"
proof -
  obtain n where n: "N div 4 = Suc n" using assms(1) by (cases "N div 4") auto
  have n32: "n < 2 ^ 32" "N div 4 < 2 ^ 31" using assms(2) n by auto
  have p: "pSrc + 2 * (N div 4) + 2 * (N div 4) = pSrc + 4 * (N div 4)"
    "pSrc + 4 * (N div 4) + 2 * (N div 4) = pSrc + 6 * (N div 4)" by simp_all
  have "first_stage_dir ifft pSrc (of_nat N) pCoef m h =
        first_stage_loop_dir ifft pCoef m pSrc (pSrc + 2 * (N div 4)) (pSrc + 4 * (N div 4))
           (pSrc + 6 * (N div 4)) 0 (of_nat (N div 4)) h"
    by (simp only: first_stage_dir_def Let_def drop_bit_2_of_nat32 [OF assms(2)]
        unat_2_times_of_nat32 [OF n32(2)] p)
  also have "\<dots> = first_stage_passes ifft pCoef m pSrc (pSrc + 2 * (N div 4))
       (pSrc + 4 * (N div 4)) (pSrc + 6 * (N div 4)) 0 (N div 4) h"
    by (simp only: n first_stage_loop_dir_passes [OF n32(1)])
  finally show ?thesis .
qed

section \<open>The dispatcher\<close>

text \<open>
  C6. \<^verbatim>\<open>riscv_cfft_radix4_q31\<close> runs the inverse engine when \<^verbatim>\<open>S->ifftFlag\<close> is 1 and
  the forward engine for every other value of the flag, each on \<^verbatim>\<open>pSrc\<close> with
  \<^verbatim>\<open>S->fftLen\<close>, \<^verbatim>\<open>S->pTwiddle\<close> and \<^verbatim>\<open>S->twidCoefModifier\<close>; when the engine has
  returned it runs the bit reversal (with \<^verbatim>\<open>S->fftLen\<close>, \<^verbatim>\<open>S->bitRevFactor\<close> and
  \<^verbatim>\<open>S->pBitRevTable\<close>) exactly when \<^verbatim>\<open>S->bitReverseFlag\<close> is 1, and otherwise leaves the
  engine's result as it is. Nothing else is computed and the result is the store only.
\<close>

theorem riscv_cfft_radix4_q31_dispatch:
  "riscv_cfft_radix4_q31 bitrev S pSrc h =
    (case (if ifftFlag S = 1
           then riscv_radix4_butterfly_inverse_q31 pSrc (fftLen S) (pTwiddle S)
                  (twidCoefModifier S) h
           else riscv_radix4_butterfly_q31 pSrc (fftLen S) (pTwiddle S)
                  (twidCoefModifier S) h)
     of None \<Rightarrow> None
      | Some h' \<Rightarrow>
          if bitReverseFlag S = 1
          then bitrev pSrc (fftLen S) (bitRevFactor S) (pBitRevTable S) h'
          else Some h')"
  by (cases "ifftFlag S = 1"; cases "bitReverseFlag S = 1")
    (simp_all add: riscv_cfft_radix4_q31_def split: option.split)

text \<open>
  At a descriptor whose direction flag is 2 and whose bit-reversal flag is 0 the forward
  engine runs, and a bit reversal that never returns is not called.
\<close>

theorem riscv_cfft_radix4_q31_dispatch_witness:
  "riscv_cfft_radix4_q31 (\<lambda>pSrc fftLen bitRevFactor pBitRevTab h. None)
     \<lparr>fftLen = 4, ifftFlag = 2, bitReverseFlag = 0, pTwiddle = 8, pBitRevTable = 0,
      twidCoefModifier = 1, bitRevFactor = 1\<rparr> 0 (\<lambda>a. 0) =
   (case riscv_radix4_butterfly_q31 0 4 8 1 (\<lambda>a. 0) of None \<Rightarrow> None | Some h' \<Rightarrow> Some h')"
  using riscv_cfft_radix4_q31_dispatch [of "\<lambda>pSrc fftLen bitRevFactor pBitRevTab h. None"
      "\<lparr>fftLen = 4, ifftFlag = 2, bitReverseFlag = 0, pTwiddle = 8, pBitRevTable = 0,
        twidCoefModifier = 1, bitRevFactor = 1\<rparr>" 0 "\<lambda>a. 0"]
  by (simp cong: option.case_cong)

section \<open>The first stage does not overflow\<close>

text \<open>\<open>fits n w\<close>: the signed value of \<open>w\<close> has magnitude at most \<open>2^n\<close>.\<close>

definition fits :: "nat \<Rightarrow> q31_t \<Rightarrow> bool" where
  "fits n w \<longleftrightarrow> - (2 ^ n) \<le> sint w \<and> sint w \<le> 2 ^ n"

lemma fits_guard: "fits 27 (signed_drop_bit 4 (x :: q31_t))"
proof -
  have "- (2 ^ 31) \<le> sint x" "sint x < 2 ^ 31"
    using sint_ge [of x] sint_lt [of x] by simp_all
  then show ?thesis
    by (simp add: fits_def sint_signed_drop_bit_eq drop_bit_eq_div) linarith
qed

lemma sint_add_fits:
  assumes "fits n a" "fits n b" "n \<le> 29"
  shows "sint (a + b) = sint a + sint b"
proof -
  have "(2::int) ^ n \<le> 2 ^ 29" using assms(3) by (intro power_increasing) simp_all
  then have "- (2 ^ 31) \<le> sint a + sint b" "sint a + sint b < 2 ^ 31"
    using assms(1,2) by (simp_all add: fits_def)
  then show ?thesis
    by (simp add: sint_word_ariths signed_take_bit_int_eq_self)
qed

lemma sint_sub_fits:
  assumes "fits n a" "fits n b" "n \<le> 29"
  shows "sint (a - b) = sint a - sint b"
proof -
  have "(2::int) ^ n \<le> 2 ^ 29" using assms(3) by (intro power_increasing) simp_all
  then have "- (2 ^ 31) \<le> sint a - sint b" "sint a - sint b < 2 ^ 31"
    using assms(1,2) by (simp_all add: fits_def)
  then show ?thesis
    by (simp add: sint_word_ariths signed_take_bit_int_eq_self)
qed

lemma fits_add: "fits n a \<Longrightarrow> fits n b \<Longrightarrow> n \<le> 29 \<Longrightarrow> fits (Suc n) (a + b)"
  using sint_add_fits [of n a b] by (simp add: fits_def)

lemma fits_sub: "fits n a \<Longrightarrow> fits n b \<Longrightarrow> n \<le> 29 \<Longrightarrow> fits (Suc n) (a - b)"
  using sint_sub_fits [of n a b] by (simp add: fits_def)

lemma add_q31_fits: "fits n a \<Longrightarrow> fits n b \<Longrightarrow> n \<le> 29 \<Longrightarrow> add_q31 a b = Some (a + b)"
proof -
  assume a: "fits n a" "fits n b" "n \<le> 29"
  have "(2::int) ^ n \<le> 2 ^ 29" using a(3) by (intro power_increasing) simp_all
  then show ?thesis using a(1,2) by (simp add: add_q31_def fits_def)
qed

lemma sub_q31_fits: "fits n a \<Longrightarrow> fits n b \<Longrightarrow> n \<le> 29 \<Longrightarrow> sub_q31 a b = Some (a - b)"
proof -
  assume a: "fits n a" "fits n b" "n \<le> 29"
  have "(2::int) ^ n \<le> 2 ^ 29" using a(3) by (intro power_increasing) simp_all
  then show ?thesis using a(1,2) by (simp add: sub_q31_def fits_def)
qed

lemma fits_mult_hi:
  assumes "fits (Suc n) a" "n \<le> 29"
  shows "fits n (mult_hi a b)"
proof -
  have b: "- (2 ^ 31) \<le> sint b" "sint b \<le> 2 ^ 31"
    using sint_ge [of b] sint_lt [of b] by simp_all
  have a: "\<bar>sint a\<bar> \<le> 2 ^ Suc n" using assms(1) by (simp add: fits_def abs_le_iff) 
  have "\<bar>sint a * sint b\<bar> \<le> 2 ^ Suc n * 2 ^ 31"
    unfolding abs_mult using a b by (intro mult_mono) (auto simp: abs_le_iff)
  also have "\<dots> = 2 ^ n * 2 ^ 32" by simp
  finally have p: "- (2 ^ n * 2 ^ 32) \<le> sint a * sint b" "sint a * sint b \<le> 2 ^ n * 2 ^ 32"
    by (simp_all add: abs_le_iff)
  have lo: "- (2 ^ n) \<le> (sint a * sint b) div 2 ^ 32"
    using p(1) zdiv_mono1 [of "- (2 ^ n * 2 ^ 32)" "sint a * sint b" "2 ^ 32"] by simp
  have hi: "(sint a * sint b) div 2 ^ 32 \<le> 2 ^ n"
    using p(2) zdiv_mono1 [of "sint a * sint b" "2 ^ n * 2 ^ 32" "2 ^ 32"] by simp
  have "(2::int) ^ n \<le> 2 ^ 29" using assms(2) by (intro power_increasing) simp_all
  then have "- (2 ^ 31) \<le> (sint a * sint b) div 2 ^ 32" "(sint a * sint b) div 2 ^ 32 < 2 ^ 31"
    using lo hi by simp_all
  then have "sint (mult_hi a b) = (sint a * sint b) div 2 ^ 32"
    unfolding mult_hi_def sint_sbintrunc' by (simp add: signed_take_bit_int_eq_self)
  then show ?thesis using lo hi by (simp add: fits_def)
qed

lemma fits28:
  "fits 28 (signed_drop_bit 4 (x :: q31_t) + signed_drop_bit 4 y)"
  "fits 28 (signed_drop_bit 4 (x :: q31_t) - signed_drop_bit 4 y)"
  using fits_add [OF fits_guard [of x] fits_guard [of y]]
    fits_sub [OF fits_guard [of x] fits_guard [of y]] by simp_all

lemma checked27:
  "add_q31 (signed_drop_bit 4 (x :: q31_t)) (signed_drop_bit 4 y) =
     Some (signed_drop_bit 4 x + signed_drop_bit 4 y)"
  "sub_q31 (signed_drop_bit 4 (x :: q31_t)) (signed_drop_bit 4 y) =
     Some (signed_drop_bit 4 x - signed_drop_bit 4 y)"
  using add_q31_fits [OF fits_guard [of x] fits_guard [of y]]
    sub_q31_fits [OF fits_guard [of x] fits_guard [of y]] by simp_all

lemma fits29:
  "fits 28 a \<Longrightarrow> fits 28 b \<Longrightarrow> fits 29 (a + b)"
  "fits 28 a \<Longrightarrow> fits 28 b \<Longrightarrow> fits 29 (a - b)"
  using fits_add [of 28 a b] fits_sub [of 28 a b] by simp_all

lemma checked28:
  "fits 28 a \<Longrightarrow> fits 28 b \<Longrightarrow> add_q31 a b = Some (a + b)"
  "fits 28 a \<Longrightarrow> fits 28 b \<Longrightarrow> sub_q31 a b = Some (a - b)"
  using add_q31_fits [of 28 a b] sub_q31_fits [of 28 a b] by simp_all

lemma fits28_mult_hi: "fits 29 a \<Longrightarrow> fits 28 (mult_hi a b)"
  using fits_mult_hi [of 28 a b] by simp

lemmas first_stage_bounds = fits28 checked27 fits29 checked28 fits28_mult_hi

lemma add_q31_overflow: "add_q31 0x7FFFFFFF 1 = None"
  by (simp add: add_q31_def)

lemma sub_q31_overflow: "sub_q31 0x80000000 1 = None"
  by (simp add: sub_q31_def)

text \<open>
  C10. In the first stage of the forward and of the inverse engine, whatever the
  store holds (every 32-bit value in every cell, whatever the cursors and the
  coefficients), every addition and subtraction on the samples shifted right by four
  bits is exact: the sums \<open>r1 + t1\<close> and \<open>s1 + t2\<close> that are stored, the differences,
  the cross terms \<open>r2 \<plusminus> t1\<close> and \<open>s2 \<plusminus> t2\<close>, and the sums and differences of the
  two high-word products. So the checked body returns, and returns what the body of
  the source computes. A pass of the first loop is this body on the store the passes
  before it have left, so it holds for every pass.
\<close>

theorem first_stage_no_wraparound:
  "first_stage_butterfly_q31_checked pCoef pSi0 pSi1 pSi2 pSi3 ia1 h =
     Some (first_stage_butterfly_q31 pCoef pSi0 pSi1 pSi2 pSi3 ia1 h) \<and>
   first_stage_butterfly_inverse_q31_checked pCoef pSi0 pSi1 pSi2 pSi3 ia1 h =
     Some (first_stage_butterfly_inverse_q31 pCoef pSi0 pSi1 pSi2 pSi3 ia1 h)"
proof
  show "first_stage_butterfly_q31_checked pCoef pSi0 pSi1 pSi2 pSi3 ia1 h =
     Some (first_stage_butterfly_q31 pCoef pSi0 pSi1 pSi2 pSi3 ia1 h)"
    by (simp add: first_stage_butterfly_q31_checked_def first_stage_butterfly_q31_def Let_def
        first_stage_bounds del: fun_upd_apply)
  show "first_stage_butterfly_inverse_q31_checked pCoef pSi0 pSi1 pSi2 pSi3 ia1 h =
     Some (first_stage_butterfly_inverse_q31 pCoef pSi0 pSi1 pSi2 pSi3 ia1 h)"
    by (simp add: first_stage_butterfly_inverse_q31_checked_def
        first_stage_butterfly_inverse_q31_def Let_def first_stage_bounds del: fun_upd_apply)
qed

text \<open>The same at a store that holds the most negative value in every cell.\<close>

theorem first_stage_no_wraparound_witness:
  "first_stage_butterfly_q31_checked 32 0 8 16 24 0 (\<lambda>a. 0x80000000) =
     Some (first_stage_butterfly_q31 32 0 8 16 24 0 (\<lambda>a. 0x80000000)) \<and>
   first_stage_butterfly_inverse_q31_checked 32 0 8 16 24 0 (\<lambda>a. 0x80000000) =
     Some (first_stage_butterfly_inverse_q31 32 0 8 16 24 0 (\<lambda>a. 0x80000000))"
  by (rule first_stage_no_wraparound)

section \<open>Last stage: the loop as a number of passes\<close>

fun last_stage_passes :: "bool \<Rightarrow> nat \<Rightarrow> nat \<Rightarrow> heap \<Rightarrow> heap" where
  "last_stage_passes ifft ptr1 0 h = h"
| "last_stage_passes ifft ptr1 (Suc n) h =
     last_stage_passes ifft (ptr1 + 8) n (last_stage_butterfly_dir ifft ptr1 h)"

lemma last_stage_loop_dir_passes:
  "n < 2 ^ 32 \<Longrightarrow>
   last_stage_loop_dir ifft ptr1 (of_nat (Suc n)) h = last_stage_passes ifft ptr1 (Suc n) h"
proof (induction n arbitrary: ptr1 h)
  case 0
  show ?case
    by (subst last_stage_loop_dir.simps) simp
next
  case (Suc n)
  then have n: "n < 2 ^ 32" by simp
  have nz: "(of_nat (Suc n) :: 32 word) \<noteq> 0"
    using Suc.prems by (simp only: of_nat32_eq_0)
  have "last_stage_loop_dir ifft ptr1 (of_nat (Suc (Suc n))) h =
        last_stage_loop_dir ifft (ptr1 + 8) (of_nat (Suc n))
          (last_stage_butterfly_dir ifft ptr1 h)"
    using nz by (subst last_stage_loop_dir.simps) (simp add: Let_def)
  then show ?case
    using Suc.IH [OF n] by simp
qed

lemma last_stage_butterfly_dir_frame:
  "a < ptr1 \<or> ptr1 + 8 \<le> a \<Longrightarrow> last_stage_butterfly_dir ifft ptr1 h a = h a"
  by (auto simp add: last_stage_butterfly_dir_def Let_def)

lemma last_stage_passes_frame:
  "a < ptr1 \<or> ptr1 + 8 * n \<le> a \<Longrightarrow> last_stage_passes ifft ptr1 n h a = h a"
proof (induction n arbitrary: ptr1 h)
  case 0
  show ?case by simp
next
  case (Suc n)
  have "last_stage_passes ifft (ptr1 + 8) n (last_stage_butterfly_dir ifft ptr1 h) a =
        last_stage_butterfly_dir ifft ptr1 h a"
    by (rule Suc.IH) (use Suc.prems in auto)
  also have "\<dots> = h a"
    by (rule last_stage_butterfly_dir_frame) (use Suc.prems in auto)
  finally show ?case by simp
qed

lemma last_stage_butterfly_dir_local:
  assumes "\<And>c. ptr1 \<le> c \<Longrightarrow> c < ptr1 + 8 \<Longrightarrow> h' c = h c"
    and "ptr1 \<le> a" "a < ptr1 + 8"
  shows "last_stage_butterfly_dir ifft ptr1 h' a = last_stage_butterfly_dir ifft ptr1 h a"
proof -
  have "a = ptr1 \<or> a = ptr1 + 1 \<or> a = ptr1 + 2 \<or> a = ptr1 + 3 \<or> a = ptr1 + 4 \<or>
        a = ptr1 + 5 \<or> a = ptr1 + 6 \<or> a = ptr1 + 7"
    using assms(2,3) by arith
  then show ?thesis
    by (auto simp add: last_stage_butterfly_dir_def Let_def assms(1))
qed

lemma last_stage_passes_value:
  assumes "g < n" "ptr1 + 8 * g \<le> a" "a < ptr1 + 8 * g + 8"
  shows "last_stage_passes ifft ptr1 n h a = last_stage_butterfly_dir ifft (ptr1 + 8 * g) h a"
  using assms
proof (induction n arbitrary: ptr1 h g)
  case 0
  then show ?case by simp
next
  case (Suc n)
  let ?B = "last_stage_butterfly_dir ifft ptr1 h"
  show ?case
  proof (cases g)
    case 0
    have "last_stage_passes ifft (ptr1 + 8) n ?B a = ?B a"
      by (rule last_stage_passes_frame) (use Suc.prems 0 in auto)
    then show ?thesis using 0 by simp
  next
    case (Suc g')
    have g': "g' < n" using Suc.prems(1) Suc by simp
    have a: "ptr1 + 8 + 8 * g' \<le> a" "a < ptr1 + 8 + 8 * g' + 8"
      using Suc.prems(2,3) Suc by simp_all
    have "last_stage_passes ifft (ptr1 + 8) n ?B a =
          last_stage_butterfly_dir ifft (ptr1 + 8 + 8 * g') ?B a"
      by (rule Suc.IH [OF g' a])
    also have "\<dots> = last_stage_butterfly_dir ifft (ptr1 + 8 + 8 * g') h a"
    proof (rule last_stage_butterfly_dir_local [OF _ a])
      fix c
      assume "ptr1 + 8 + 8 * g' \<le> c" "c < ptr1 + 8 + 8 * g' + 8"
      then show "?B c = h c"
        by (intro last_stage_butterfly_dir_frame) simp
    qed
    finally show ?thesis
      using Suc by (simp add: algebra_simps)
  qed
qed

lemma last_stage_dir_passes:
  assumes "4 \<le> N" "N < 2 ^ 32"
  shows "last_stage_dir ifft pSrc (of_nat N) h = last_stage_passes ifft pSrc (N div 4) h"
proof -
  obtain n where n: "N div 4 = Suc n" using assms(1) by (cases "N div 4") auto
  have n32: "n < 2 ^ 32" using assms(2) n by auto
  show ?thesis
    by (simp only: last_stage_dir_def drop_bit_2_of_nat32 [OF assms(2)] n
        last_stage_loop_dir_passes [OF n32])
qed

section \<open>Lengths that are powers of four\<close>

lemma pow4_word: "(4 :: 32 word) ^ k = of_nat (4 ^ k)"
  by simp

lemma pow4_bounds:
  assumes "1 \<le> k" "k \<le> 15"
  shows "4 \<le> (4::nat) ^ k" "(4::nat) ^ k < 2 ^ 32" "(4::nat) ^ k \<le> 2 ^ 30"
    "(4::nat) ^ k div 4 = 4 ^ (k - 1)"
proof -
  have "(4::nat) ^ 1 \<le> 4 ^ k" using assms(1) by (intro power_increasing) simp_all
  then show "4 \<le> (4::nat) ^ k" by simp
  have "(4::nat) ^ k \<le> 4 ^ 15" using assms(2) by (intro power_increasing) simp_all
  then show "(4::nat) ^ k \<le> 2 ^ 30" by simp
  then show "(4::nat) ^ k < 2 ^ 32" by simp
  obtain j where "k = Suc j" using assms(1) by (cases k) auto
  then show "(4::nat) ^ k div 4 = 4 ^ (k - 1)" by simp
qed

section \<open>The last stage\<close>

text \<open>
  C5. For \<open>N = 4^k\<close> the last stage of the forward engine works on the \<open>N/4\<close>
  consecutive groups of eight cells \<open>pSrc + 8g .. pSrc + 8g + 7\<close>, \<open>g < N/4\<close>. With
  \<open>xa, ya, xb, yb, xc, yc, xd, yd\<close> the eight values of a group before the stage, the
  group holds after it, in this order, \<open>xa + xb + xc + xd\<close>, \<open>ya + yb + yc + yd\<close>,
  \<open>xa - xb + xc - xd\<close>, \<open>ya - yb + yc - yd\<close>, \<open>xa + yb - xc - yd\<close>,
  \<open>ya - xb - yc + xd\<close>, \<open>xa - yb - xc + yd\<close>, \<open>ya + xb - yc - xd\<close>: sums and
  differences of the group's own values only, with no coefficient and no shift. The
  stage takes no coefficient table and changes no cell outside the \<open>2N\<close> cells of the
  buffer.
\<close>

theorem last_stage_q31_groups:
  assumes "1 \<le> k" and "k \<le> 15" and "g < 4 ^ k div 4"
  shows
    "(let p = pSrc + 8 * g;
          xa = h p; ya = h (p + 1); xb = h (p + 2); yb = h (p + 3);
          xc = h (p + 4); yc = h (p + 5); xd = h (p + 6); yd = h (p + 7);
          h' = last_stage_q31 pSrc (4 ^ k) h
      in h' p = xa + xb + xc + xd \<and>
         h' (p + 1) = ya + yb + yc + yd \<and>
         h' (p + 2) = xa - xb + xc - xd \<and>
         h' (p + 3) = ya - yb + yc - yd \<and>
         h' (p + 4) = xa + yb - xc - yd \<and>
         h' (p + 5) = ya - xb - yc + xd \<and>
         h' (p + 6) = xa - yb - xc + yd \<and>
         h' (p + 7) = ya + xb - yc - xd \<and>
         (\<forall>a. a < pSrc \<or> pSrc + 2 * 4 ^ k \<le> a \<longrightarrow> h' a = h a))"
proof -
  note N = pow4_bounds [OF assms(1,2)]
  define n where "n = (4::nat) ^ k div 4"
  have run: "last_stage_q31 pSrc (4 ^ k) h = last_stage_passes False pSrc n h"
    unfolding last_stage_q31_dir pow4_word n_def by (rule last_stage_dir_passes [OF N(1,2)])
  have cell: "last_stage_passes False pSrc n h (pSrc + 8 * g + c) =
      last_stage_butterfly_dir False (pSrc + 8 * g) h (pSrc + 8 * g + c)" if "c < 8" for c
    by (rule last_stage_passes_value) (use assms(3) that in \<open>simp_all add: n_def\<close>)
  have frame: "last_stage_passes False pSrc n h a = h a"
    if "a < pSrc \<or> pSrc + 2 * 4 ^ k \<le> a" for a
    by (rule last_stage_passes_frame) (use that N(1) in \<open>auto simp add: n_def\<close>)
  have vals:
    "last_stage_passes False pSrc n h (pSrc + 8 * g) = 
       h (pSrc + 8 * g) + h (pSrc + 8 * g + 2) + h (pSrc + 8 * g + 4) + h (pSrc + 8 * g + 6)"
    "last_stage_passes False pSrc n h (pSrc + 8 * g + 1) = 
       h (pSrc + 8 * g + 1) + h (pSrc + 8 * g + 3) + h (pSrc + 8 * g + 5) + h (pSrc + 8 * g + 7)"
    "last_stage_passes False pSrc n h (pSrc + 8 * g + 2) = 
       h (pSrc + 8 * g) - h (pSrc + 8 * g + 2) + h (pSrc + 8 * g + 4) - h (pSrc + 8 * g + 6)"
    "last_stage_passes False pSrc n h (pSrc + 8 * g + 3) = 
       h (pSrc + 8 * g + 1) - h (pSrc + 8 * g + 3) + h (pSrc + 8 * g + 5) - h (pSrc + 8 * g + 7)"
    "last_stage_passes False pSrc n h (pSrc + 8 * g + 4) = 
       h (pSrc + 8 * g) + h (pSrc + 8 * g + 3) - h (pSrc + 8 * g + 4) - h (pSrc + 8 * g + 7)"
    "last_stage_passes False pSrc n h (pSrc + 8 * g + 5) = 
       h (pSrc + 8 * g + 1) - h (pSrc + 8 * g + 2) - h (pSrc + 8 * g + 5) + h (pSrc + 8 * g + 6)"
    "last_stage_passes False pSrc n h (pSrc + 8 * g + 6) = 
       h (pSrc + 8 * g) - h (pSrc + 8 * g + 3) - h (pSrc + 8 * g + 4) + h (pSrc + 8 * g + 7)"
    "last_stage_passes False pSrc n h (pSrc + 8 * g + 7) = 
       h (pSrc + 8 * g + 1) + h (pSrc + 8 * g + 2) - h (pSrc + 8 * g + 5) - h (pSrc + 8 * g + 6)"
    using cell [of 0] cell [of 1] cell [of 2] cell [of 3] cell [of 4] cell [of 5] cell [of 6]
      cell [of 7]
    by (simp_all add: last_stage_butterfly_dir_def dir_add_def dir_sub_def Let_def)
  show ?thesis
    unfolding Let_def run using vals frame by simp
qed

text \<open>
  For \<open>N = 4\<close> and the buffer \<open>1, 2, .., 8\<close> at cell 0 the one group becomes
  \<open>16, 20, -4, -4, -8, 0, 0, -8\<close>, and cell 8 keeps its value.
\<close>

theorem last_stage_q31_groups_witness:
  "(1::nat) \<le> 1 \<and> (1::nat) \<le> 15 \<and> (0::nat) < 4 ^ 1 div 4 \<and>
   last_stage_q31 0 (4 ^ 1) (\<lambda>a. of_nat a + 1) 0 = 16 \<and>
   last_stage_q31 0 (4 ^ 1) (\<lambda>a. of_nat a + 1) 1 = 20 \<and>
   last_stage_q31 0 (4 ^ 1) (\<lambda>a. of_nat a + 1) 2 = - 4 \<and>
   last_stage_q31 0 (4 ^ 1) (\<lambda>a. of_nat a + 1) 3 = - 4 \<and>
   last_stage_q31 0 (4 ^ 1) (\<lambda>a. of_nat a + 1) 4 = - 8 \<and>
   last_stage_q31 0 (4 ^ 1) (\<lambda>a. of_nat a + 1) 5 = 0 \<and>
   last_stage_q31 0 (4 ^ 1) (\<lambda>a. of_nat a + 1) 6 = 0 \<and>
   last_stage_q31 0 (4 ^ 1) (\<lambda>a. of_nat a + 1) 7 = - 8 \<and>
   last_stage_q31 0 (4 ^ 1) (\<lambda>a. of_nat a + 1) 8 = 9"
  using last_stage_q31_groups [of 1 0 0 "\<lambda>a. of_nat a + 1"]
  by (simp add: Let_def del: add_2_eq_Suc add_2_eq_Suc' One_nat_def)

section \<open>The first stage\<close>

text \<open>
  C3. For \<open>N = 4^k\<close> the first stage of the forward engine walks the buffer with four
  cursors that start at the cells \<open>pSrc\<close>, \<open>pSrc + 2 (N/4)\<close>, \<open>pSrc + 4 (N/4)\<close> and
  \<open>pSrc + 6 (N/4)\<close> and move on by two cells per pass; pass \<open>i < N/4\<close> works on the
  pairs of cells at \<open>p0, p1, p2, p3\<close> below with the coefficient index \<open>i * m\<close>. Every
  sample enters only as \<open>signed_drop_bit 4\<close> of the cell. The pair at \<open>p0\<close> receives the
  plain sums. Each of the other six cells receives a sum or difference of two high
  words of signed 64-bit products (\<open>mult_hi\<close>) of a combined term with a cosine or sine
  coefficient, shifted left by one bit. The coefficient table is assumed to lie apart
  from the buffer (no cell \<open>pCoef + w\<close>, \<open>w < 2^32\<close>, is one of the \<open>2N\<close> buffer cells).
\<close>

theorem first_stage_q31_butterflies:
  assumes "1 \<le> k" and "k \<le> 15" and "i < 4 ^ k div 4"
    and "pCoef + 2 ^ 32 \<le> pSrc \<or> pSrc + 2 * 4 ^ k \<le> pCoef"
  shows
    "(let n2 = 4 ^ k div 4;
          p0 = pSrc + 2 * i;
          p1 = pSrc + 2 * n2 + 2 * i;
          p2 = pSrc + 4 * n2 + 2 * i;
          p3 = pSrc + 6 * n2 + 2 * i;
          xa = signed_drop_bit 4 (h p0); ya = signed_drop_bit 4 (h (p0 + 1));
          xb = signed_drop_bit 4 (h p1); yb = signed_drop_bit 4 (h (p1 + 1));
          xc = signed_drop_bit 4 (h p2); yc = signed_drop_bit 4 (h (p2 + 1));
          xd = signed_drop_bit 4 (h p3); yd = signed_drop_bit 4 (h (p3 + 1));
          ia1 = of_nat i * m;
          co1 = h (pCoef + unat (ia1 * 2)); si1 = h (pCoef + unat (ia1 * 2 + 1));
          co2 = h (pCoef + unat (2 * ia1 * 2)); si2 = h (pCoef + unat (2 * ia1 * 2 + 1));
          co3 = h (pCoef + unat (3 * ia1 * 2)); si3 = h (pCoef + unat (3 * ia1 * 2 + 1));
          h' = first_stage_q31 pSrc (4 ^ k) pCoef m h
      in h' p0 = xa + xc + (xb + xd) \<and>
         h' (p0 + 1) = ya + yc + (yb + yd) \<and>
         h' p1 = push_bit 1 (mult_hi (xa + xc - (xb + xd)) co2 + mult_hi (ya + yc - (yb + yd)) si2) \<and>
         h' (p1 + 1) =
           push_bit 1 (mult_hi (ya + yc - (yb + yd)) co2 - mult_hi (xa + xc - (xb + xd)) si2) \<and>
         h' p2 = push_bit 1 (mult_hi (xa - xc + (yb - yd)) co1 + mult_hi (ya - yc - (xb - xd)) si1) \<and>
         h' (p2 + 1) =
           push_bit 1 (mult_hi (ya - yc - (xb - xd)) co1 - mult_hi (xa - xc + (yb - yd)) si1) \<and>
         h' p3 = push_bit 1 (mult_hi (xa - xc - (yb - yd)) co3 + mult_hi (ya - yc + (xb - xd)) si3) \<and>
         h' (p3 + 1) =
           push_bit 1 (mult_hi (ya - yc + (xb - xd)) co3 - mult_hi (xa - xc - (yb - yd)) si3))"
proof -
  note N = pow4_bounds [OF assms(1,2)]
  define n where "n = (4::nat) ^ k div 4"
  have n: "i < n" "0 < n" "4 * n = 4 ^ k"
    using assms(1,3) N(4) by (simp_all add: n_def flip: power_Suc)
  define p0 p1 p2 p3 where "p0 = pSrc + 2 * i" and "p1 = pSrc + 2 * n + 2 * i"
    and "p2 = pSrc + 4 * n + 2 * i" and "p3 = pSrc + 6 * n + 2 * i"
  define B where "B = first_stage_butterfly_dir False pCoef p0 p1 p2 p3 (of_nat i * m) h"
  have apart: "pCoef + unat w < pSrc \<or> pSrc + 6 * n + 2 * n \<le> pCoef + unat w"
    for w :: "32 word"
    using assms(4) n(3) unsigned_less [of w, where 'a = nat] by auto
  have run: "first_stage_q31 pSrc (4 ^ k) pCoef m h =
      first_stage_passes False pCoef m pSrc (pSrc + 2 * n) (pSrc + 4 * n) (pSrc + 6 * n) 0 n h"
    unfolding first_stage_q31_dir pow4_word n_def by (rule first_stage_dir_passes [OF N(1,2)])
  have cell: "first_stage_passes False pCoef m pSrc (pSrc + 2 * n) (pSrc + 4 * n) (pSrc + 6 * n)
      0 n h a = B a"
    if "a \<in> {p0, p0 + 1, p1, p1 + 1, p2, p2 + 1, p3, p3 + 1}" for a
    unfolding B_def p0_def p1_def p2_def p3_def
    using first_stage_passes_value [where ?ia1.0 = 0 and m = m and h = h and ifft = False,
        OF _ _ _ apart n(1), of "pSrc + 2 * n" "pSrc + 4 * n" a]
      that
    by (simp add: p0_def p1_def p2_def p3_def)
  have ne: "pCoef + unat w \<noteq> p0" "pCoef + unat w \<noteq> Suc p0"
    "pCoef + unat w \<noteq> p1" "pCoef + unat w \<noteq> Suc p1"
    "pCoef + unat w \<noteq> p2" "pCoef + unat w \<noteq> Suc p2"
    "pCoef + unat w \<noteq> p3" "pCoef + unat w \<noteq> Suc p3" for w :: "32 word"
    using apart [of w] n(1) by (auto simp add: p0_def p1_def p2_def p3_def)
  have d: "p0 + 1 < p1" "p1 + 1 < p2" "p2 + 1 < p3"
    using n(1) by (simp_all add: p0_def p1_def p2_def p3_def)
  have res: "first_stage_q31 pSrc (4 ^ k) pCoef m h a = B a"
    if "a \<in> {p0, p0 + 1, p1, p1 + 1, p2, p2 + 1, p3, p3 + 1}" for a
    unfolding run using that by (rule cell)
  have "B p0 = signed_drop_bit 4 (h p0) + signed_drop_bit 4 (h p2) +
          (signed_drop_bit 4 (h p1) + signed_drop_bit 4 (h p3))"
    and "B (p0 + 1) = signed_drop_bit 4 (h (p0 + 1)) + signed_drop_bit 4 (h (p2 + 1)) +
          (signed_drop_bit 4 (h (p1 + 1)) + signed_drop_bit 4 (h (p3 + 1)))"
    using d by (simp_all add: B_def first_stage_butterfly_dir_def Let_def ne)
  then have v0: "first_stage_q31 pSrc (4 ^ k) pCoef m h p0 =
      signed_drop_bit 4 (h p0) + signed_drop_bit 4 (h p2) +
          (signed_drop_bit 4 (h p1) + signed_drop_bit 4 (h p3))"
    and v1: "first_stage_q31 pSrc (4 ^ k) pCoef m h (p0 + 1) =
      signed_drop_bit 4 (h (p0 + 1)) + signed_drop_bit 4 (h (p2 + 1)) +
          (signed_drop_bit 4 (h (p1 + 1)) + signed_drop_bit 4 (h (p3 + 1)))"
    by (simp_all add: res)
  have v2: "first_stage_q31 pSrc (4 ^ k) pCoef m h p1 = B p1"
    and v3: "first_stage_q31 pSrc (4 ^ k) pCoef m h (p1 + 1) = B (p1 + 1)"
    and v4: "first_stage_q31 pSrc (4 ^ k) pCoef m h p2 = B p2"
    and v5: "first_stage_q31 pSrc (4 ^ k) pCoef m h (p2 + 1) = B (p2 + 1)"
    and v6: "first_stage_q31 pSrc (4 ^ k) pCoef m h p3 = B p3"
    and v7: "first_stage_q31 pSrc (4 ^ k) pCoef m h (p3 + 1) = B (p3 + 1)"
    by (simp_all add: res)
  have fold: "pSrc + 2 * (4 ^ k div 4) + 2 * i = p1" "pSrc + 4 * (4 ^ k div 4) + 2 * i = p2"
    "pSrc + 6 * (4 ^ k div 4) + 2 * i = p3" "pSrc + 2 * i = p0"
    by (simp_all add: p0_def p1_def p2_def p3_def n_def)
  show ?thesis
    unfolding Let_def fold v0 v1 v2 v3 v4 v5 v6 v7
    using d
    by (simp add: B_def first_stage_butterfly_dir_def Let_def dir_add_def dir_sub_def ne)
qed

text \<open>
  For \<open>N = 4\<close>, the buffer \<open>1 * 2^24, 2 * 2^24, .., 8 * 2^24\<close> at cell 0 and the one
  coefficient pair \<open>(0x7FFFFFFF, 0x40000000)\<close> at cell 8.
\<close>

definition first_stage_example :: heap where
  "first_stage_example =
    (\<lambda>a. if a < 8 then of_nat (a + 1) * 0x1000000 else if a = 8 then 0x7FFFFFFF else 0x40000000)"

theorem first_stage_q31_butterflies_witness:
  "(1::nat) \<le> 1 \<and> (1::nat) \<le> 15 \<and> (0::nat) < 4 ^ 1 div 4 \<and>
   ((8::nat) + 2 ^ 32 \<le> 0 \<or> (0::nat) + 2 * 4 ^ 1 \<le> 8) \<and>
   first_stage_q31 0 (4 ^ 1) 8 1 first_stage_example 0 = 16777216 \<and>
   first_stage_q31 0 (4 ^ 1) 8 1 first_stage_example 1 = 20971520 \<and>
   first_stage_q31 0 (4 ^ 1) 8 1 first_stage_example 2 = - 6291456 \<and>
   first_stage_q31 0 (4 ^ 1) 8 1 first_stage_example 3 = - 2097152 \<and>
   first_stage_q31 0 (4 ^ 1) 8 1 first_stage_example 4 = - 8388608 \<and>
   first_stage_q31 0 (4 ^ 1) 8 1 first_stage_example 5 = 4194304 \<and>
   first_stage_q31 0 (4 ^ 1) 8 1 first_stage_example 6 = - 4194304 \<and>
   first_stage_q31 0 (4 ^ 1) 8 1 first_stage_example 7 = - 8388608"
  using first_stage_q31_butterflies [of 1 0 8 0
      first_stage_example 1]
  by (simp add: Let_def del: add_2_eq_Suc add_2_eq_Suc' One_nat_def)
    (simp add: first_stage_example_def mult_hi_def)

section \<open>Cell by cell: what the first and the last stage leave in the buffer\<close>

lemma first_stage_dir_cell:
  assumes "4 \<le> N" "N < 2 ^ 32" "i < N div 4"
    and "pCoef + 2 ^ 32 \<le> pSrc \<or> pSrc + 8 * (N div 4) \<le> pCoef"
    and "a \<in> {pSrc + 2 * i, pSrc + 2 * i + 1,
               pSrc + 2 * (N div 4) + 2 * i, pSrc + 2 * (N div 4) + 2 * i + 1,
               pSrc + 4 * (N div 4) + 2 * i, pSrc + 4 * (N div 4) + 2 * i + 1,
               pSrc + 6 * (N div 4) + 2 * i, pSrc + 6 * (N div 4) + 2 * i + 1}"
  shows "first_stage_dir ifft pSrc (of_nat N) pCoef m h a =
         first_stage_butterfly_dir ifft pCoef (pSrc + 2 * i) (pSrc + 2 * (N div 4) + 2 * i)
           (pSrc + 4 * (N div 4) + 2 * i) (pSrc + 6 * (N div 4) + 2 * i) (of_nat i * m) h a"
proof -
  define n where "n = N div 4"
  have apart: "pCoef + unat w < pSrc \<or> pSrc + 6 * n + 2 * n \<le> pCoef + unat w"
    for w :: "32 word"
    using assms(4) unsigned_less [of w, where 'a = nat] by (auto simp add: n_def)
  show ?thesis
    unfolding first_stage_dir_passes [OF assms(1,2)]
    using first_stage_passes_value [where ?ia1.0 = 0 and m = m and h = h and ifft = ifft,
        OF _ _ _ apart, of "pSrc + 2 * n" "pSrc + 4 * n" i a] assms(3,5)
    by (simp add: n_def)
qed

lemma first_stage_dir_frame:
  assumes "4 \<le> N" "N < 2 ^ 32" "a < pSrc \<or> pSrc + 8 * (N div 4) \<le> a"
  shows "first_stage_dir ifft pSrc (of_nat N) pCoef m h a = h a"
  unfolding first_stage_dir_passes [OF assms(1,2)]
  by (rule first_stage_passes_frame) (use assms(3) in auto)

lemma last_stage_dir_cell:
  assumes "4 \<le> N" "N < 2 ^ 32" "g < N div 4" "c < 8"
  shows "last_stage_dir ifft pSrc (of_nat N) h (pSrc + 8 * g + c) =
         last_stage_butterfly_dir ifft (pSrc + 8 * g) h (pSrc + 8 * g + c)"
  unfolding last_stage_dir_passes [OF assms(1,2)]
  by (rule last_stage_passes_value) (use assms(3,4) in simp_all)

lemma last_stage_dir_frame:
  assumes "4 \<le> N" "N < 2 ^ 32" "a < pSrc \<or> pSrc + 8 * (N div 4) \<le> a"
  shows "last_stage_dir ifft pSrc (of_nat N) h a = h a"
  unfolding last_stage_dir_passes [OF assms(1,2)]
  by (rule last_stage_passes_frame) (use assms(3) in auto)

text \<open>
  The values that one first-stage pass stores, when its eight cells are distinct and
  the six coefficient cells are none of them.
\<close>

lemma first_stage_butterfly_dir_cells:
  fixes h :: heap and ia1 :: uint32_t and ifft :: bool and pCoef p0 p1 p2 p3 :: nat
  assumes "p0 + 1 < p1" "p1 + 1 < p2" "p2 + 1 < p3"
    and "\<And>w :: 32 word. pCoef + unat w < p0 \<or> p3 + 1 < pCoef + unat w"
  defines "xa \<equiv> signed_drop_bit 4 (h p0)" and "ya \<equiv> signed_drop_bit 4 (h (p0 + 1))"
    and "xb \<equiv> signed_drop_bit 4 (h p1)" and "yb \<equiv> signed_drop_bit 4 (h (p1 + 1))"
    and "xc \<equiv> signed_drop_bit 4 (h p2)" and "yc \<equiv> signed_drop_bit 4 (h (p2 + 1))"
    and "xd \<equiv> signed_drop_bit 4 (h p3)" and "yd \<equiv> signed_drop_bit 4 (h (p3 + 1))"
    and "co1 \<equiv> h (pCoef + unat (ia1 * 2))" and "si1 \<equiv> h (pCoef + unat (ia1 * 2 + 1))"
    and "co2 \<equiv> h (pCoef + unat (2 * ia1 * 2))" and "si2 \<equiv> h (pCoef + unat (2 * ia1 * 2 + 1))"
    and "co3 \<equiv> h (pCoef + unat (3 * ia1 * 2))" and "si3 \<equiv> h (pCoef + unat (3 * ia1 * 2 + 1))"
    and "B \<equiv> first_stage_butterfly_dir ifft pCoef p0 p1 p2 p3 ia1 h"
  shows "B p0 = xa + xc + (xb + xd)"
    and "B (p0 + 1) = ya + yc + (yb + yd)"
    and "B p1 = push_bit 1 (dir_add ifft (mult_hi (xa + xc - (xb + xd)) co2)
                  (mult_hi (ya + yc - (yb + yd)) si2))"
    and "B (p1 + 1) = push_bit 1 (dir_sub ifft (mult_hi (ya + yc - (yb + yd)) co2)
                  (mult_hi (xa + xc - (xb + xd)) si2))"
    and "B p2 = push_bit 1 (dir_add ifft (mult_hi (dir_add ifft (xa - xc) (yb - yd)) co1)
                  (mult_hi (dir_sub ifft (ya - yc) (xb - xd)) si1))"
    and "B (p2 + 1) = push_bit 1 (dir_sub ifft (mult_hi (dir_sub ifft (ya - yc) (xb - xd)) co1)
                  (mult_hi (dir_add ifft (xa - xc) (yb - yd)) si1))"
    and "B p3 = push_bit 1 (dir_add ifft (mult_hi (dir_sub ifft (xa - xc) (yb - yd)) co3)
                  (mult_hi (dir_add ifft (ya - yc) (xb - xd)) si3))"
    and "B (p3 + 1) = push_bit 1 (dir_sub ifft (mult_hi (dir_add ifft (ya - yc) (xb - xd)) co3)
                  (mult_hi (dir_sub ifft (xa - xc) (yb - yd)) si3))"
proof -
  have ne: "pCoef + unat w \<noteq> p0" "pCoef + unat w \<noteq> Suc p0"
    "pCoef + unat w \<noteq> p1" "pCoef + unat w \<noteq> Suc p1"
    "pCoef + unat w \<noteq> p2" "pCoef + unat w \<noteq> Suc p2"
    "pCoef + unat w \<noteq> p3" "pCoef + unat w \<noteq> Suc p3" for w :: "32 word"
    using assms(4) [of w] assms(1,2,3) by auto
  show "B p0 = xa + xc + (xb + xd)"
    and "B (p0 + 1) = ya + yc + (yb + yd)"
    and "B p1 = push_bit 1 (dir_add ifft (mult_hi (xa + xc - (xb + xd)) co2)
                  (mult_hi (ya + yc - (yb + yd)) si2))"
    and "B (p1 + 1) = push_bit 1 (dir_sub ifft (mult_hi (ya + yc - (yb + yd)) co2)
                  (mult_hi (xa + xc - (xb + xd)) si2))"
    and "B p2 = push_bit 1 (dir_add ifft (mult_hi (dir_add ifft (xa - xc) (yb - yd)) co1)
                  (mult_hi (dir_sub ifft (ya - yc) (xb - xd)) si1))"
    and "B (p2 + 1) = push_bit 1 (dir_sub ifft (mult_hi (dir_sub ifft (ya - yc) (xb - xd)) co1)
                  (mult_hi (dir_add ifft (xa - xc) (yb - yd)) si1))"
    and "B p3 = push_bit 1 (dir_add ifft (mult_hi (dir_sub ifft (xa - xc) (yb - yd)) co3)
                  (mult_hi (dir_add ifft (ya - yc) (xb - xd)) si3))"
    and "B (p3 + 1) = push_bit 1 (dir_sub ifft (mult_hi (dir_add ifft (ya - yc) (xb - xd)) co3)
                  (mult_hi (dir_sub ifft (xa - xc) (yb - yd)) si3))"
    using assms(1,2,3)
    unfolding B_def xa_def ya_def xb_def yb_def xc_def yc_def xd_def yd_def
      co1_def si1_def co2_def si2_def co3_def si3_def
    by (simp_all add: first_stage_butterfly_dir_def Let_def ne)
qed

lemma mult_hi_0 [simp]: "mult_hi 0 b = 0" "mult_hi a 0 = 0"
  by (simp_all add: mult_hi_def)

section \<open>The impulse of length 16\<close>

lemma middle_stages_q31_16: "middle_stages_q31 pSrc 16 pCoef m n2 (16 div 4) h = Some h"
  by (subst middle_stages_q31.simps) simp

lemma first_stage_dir_values:
  fixes h :: heap and m :: uint32_t and ifft :: bool and pCoef pSrc N i :: nat
  assumes "4 \<le> N" "N < 2 ^ 32" "i < N div 4"
    and "pCoef + 2 ^ 32 \<le> pSrc \<or> pSrc + 8 * (N div 4) \<le> pCoef"
  defines "p0 \<equiv> pSrc + 2 * i" and "p1 \<equiv> pSrc + 2 * (N div 4) + 2 * i"
    and "p2 \<equiv> pSrc + 4 * (N div 4) + 2 * i" and "p3 \<equiv> pSrc + 6 * (N div 4) + 2 * i"
  defines "xa \<equiv> signed_drop_bit 4 (h p0)" and "ya \<equiv> signed_drop_bit 4 (h (p0 + 1))"
    and "xb \<equiv> signed_drop_bit 4 (h p1)" and "yb \<equiv> signed_drop_bit 4 (h (p1 + 1))"
    and "xc \<equiv> signed_drop_bit 4 (h p2)" and "yc \<equiv> signed_drop_bit 4 (h (p2 + 1))"
    and "xd \<equiv> signed_drop_bit 4 (h p3)" and "yd \<equiv> signed_drop_bit 4 (h (p3 + 1))"
    and "co1 \<equiv> h (pCoef + unat (of_nat i * m * 2))"
    and "si1 \<equiv> h (pCoef + unat (of_nat i * m * 2 + 1))"
    and "co2 \<equiv> h (pCoef + unat (2 * (of_nat i * m) * 2))"
    and "si2 \<equiv> h (pCoef + unat (2 * (of_nat i * m) * 2 + 1))"
    and "co3 \<equiv> h (pCoef + unat (3 * (of_nat i * m) * 2))"
    and "si3 \<equiv> h (pCoef + unat (3 * (of_nat i * m) * 2 + 1))"
    and "h' \<equiv> first_stage_dir ifft pSrc (of_nat N) pCoef m h"
  shows "h' p0 = xa + xc + (xb + xd)"
    and "h' (p0 + 1) = ya + yc + (yb + yd)"
    and "h' p1 = push_bit 1 (dir_add ifft (mult_hi (xa + xc - (xb + xd)) co2)
                  (mult_hi (ya + yc - (yb + yd)) si2))"
    and "h' (p1 + 1) = push_bit 1 (dir_sub ifft (mult_hi (ya + yc - (yb + yd)) co2)
                  (mult_hi (xa + xc - (xb + xd)) si2))"
    and "h' p2 = push_bit 1 (dir_add ifft (mult_hi (dir_add ifft (xa - xc) (yb - yd)) co1)
                  (mult_hi (dir_sub ifft (ya - yc) (xb - xd)) si1))"
    and "h' (p2 + 1) = push_bit 1 (dir_sub ifft (mult_hi (dir_sub ifft (ya - yc) (xb - xd)) co1)
                  (mult_hi (dir_add ifft (xa - xc) (yb - yd)) si1))"
    and "h' p3 = push_bit 1 (dir_add ifft (mult_hi (dir_sub ifft (xa - xc) (yb - yd)) co3)
                  (mult_hi (dir_add ifft (ya - yc) (xb - xd)) si3))"
    and "h' (p3 + 1) = push_bit 1 (dir_sub ifft (mult_hi (dir_add ifft (ya - yc) (xb - xd)) co3)
                  (mult_hi (dir_sub ifft (xa - xc) (yb - yd)) si3))"
proof -
  have cell: "h' a = first_stage_butterfly_dir ifft pCoef p0 p1 p2 p3 (of_nat i * m) h a"
    if "a \<in> {p0, p0 + 1, p1, p1 + 1, p2, p2 + 1, p3, p3 + 1}" for a
    unfolding h'_def p0_def p1_def p2_def p3_def
    by (rule first_stage_dir_cell [OF assms(1-4)])
      (use that in \<open>simp add: p0_def p1_def p2_def p3_def\<close>)
  have d: "p0 + 1 < p1" "p1 + 1 < p2" "p2 + 1 < p3"
    using assms(3) by (simp_all add: p0_def p1_def p2_def p3_def)
  have apart: "pCoef + unat w < p0 \<or> p3 + 1 < pCoef + unat w" for w :: "32 word"
    using assms(3,4) unsigned_less [of w, where 'a = nat]
    by (auto simp add: p0_def p3_def)
  note vals = first_stage_butterfly_dir_cells [where ifft = ifft and h = h and pCoef = pCoef
      and ?ia1.0 = "of_nat i * m", OF d apart]
  show "h' p0 = xa + xc + (xb + xd)"
    unfolding xa_def xb_def xc_def xd_def by (subst cell, simp, rule vals)
  show "h' (p0 + 1) = ya + yc + (yb + yd)"
    unfolding ya_def yb_def yc_def yd_def by (subst cell, simp, rule vals)
  show "h' p1 = push_bit 1 (dir_add ifft (mult_hi (xa + xc - (xb + xd)) co2)
                  (mult_hi (ya + yc - (yb + yd)) si2))"
    unfolding xa_def xb_def xc_def xd_def ya_def yb_def yc_def yd_def co2_def si2_def
    by (subst cell, simp, rule vals)
  show "h' (p1 + 1) = push_bit 1 (dir_sub ifft (mult_hi (ya + yc - (yb + yd)) co2)
                  (mult_hi (xa + xc - (xb + xd)) si2))"
    unfolding xa_def xb_def xc_def xd_def ya_def yb_def yc_def yd_def co2_def si2_def
    by (subst cell, simp, rule vals)
  show "h' p2 = push_bit 1 (dir_add ifft (mult_hi (dir_add ifft (xa - xc) (yb - yd)) co1)
                  (mult_hi (dir_sub ifft (ya - yc) (xb - xd)) si1))"
    unfolding xa_def xb_def xc_def xd_def ya_def yb_def yc_def yd_def co1_def si1_def
    by (subst cell, simp, rule vals)
  show "h' (p2 + 1) = push_bit 1 (dir_sub ifft (mult_hi (dir_sub ifft (ya - yc) (xb - xd)) co1)
                  (mult_hi (dir_add ifft (xa - xc) (yb - yd)) si1))"
    unfolding xa_def xb_def xc_def xd_def ya_def yb_def yc_def yd_def co1_def si1_def
    by (subst cell, simp, rule vals)
  show "h' p3 = push_bit 1 (dir_add ifft (mult_hi (dir_sub ifft (xa - xc) (yb - yd)) co3)
                  (mult_hi (dir_add ifft (ya - yc) (xb - xd)) si3))"
    unfolding xa_def xb_def xc_def xd_def ya_def yb_def yc_def yd_def co3_def si3_def
    by (subst cell, simp, rule vals)
  show "h' (p3 + 1) = push_bit 1 (dir_sub ifft (mult_hi (dir_add ifft (ya - yc) (xb - xd)) co3)
                  (mult_hi (dir_sub ifft (xa - xc) (yb - yd)) si3))"
    unfolding xa_def xb_def xc_def xd_def ya_def yb_def yc_def yd_def co3_def si3_def
    by (subst cell, simp, rule vals)
qed

lemma cell_of_32:
  fixes a pSrc :: nat
  assumes "pSrc \<le> a" and "a < pSrc + 32"
  obtains i where "i < 4"
    and "a = pSrc + 2 * i \<or> a = pSrc + 2 * i + 1 \<or>
      a = pSrc + 8 + 2 * i \<or> a = pSrc + 8 + 2 * i + 1 \<or>
      a = pSrc + 16 + 2 * i \<or> a = pSrc + 16 + 2 * i + 1 \<or>
      a = pSrc + 24 + 2 * i \<or> a = pSrc + 24 + 2 * i + 1"
proof -
  define c where "c = a - pSrc"
  define q where "q = c div 8"
  define i where "i = c mod 8 div 2"
  define t where "t = c mod 8 mod 2"
  have c: "a = pSrc + c" "c < 32" using assms by (simp_all add: c_def)
  have "c = 8 * q + c mod 8" by (simp add: q_def)
  moreover have "c mod 8 = 2 * i + t" by (simp add: i_def t_def)
  ultimately have a: "a = pSrc + 8 * q + 2 * i + t" using c(1) by simp
  have "q < 4" using c(2) by (simp add: q_def)
  then have q: "q = 0 \<or> q = 1 \<or> q = 2 \<or> q = 3" by arith
  have "t < 2" by (simp add: t_def)
  then have t: "t = 0 \<or> t = 1" by arith
  have i: "i < 4" by (simp add: i_def)
  show thesis
    by (rule that [OF i]) (use a q t in auto)
qed

lemma impulse_16_first_stage:
  assumes "h pSrc = 0x10000000"
    and "\<forall>c. 0 < c \<and> c < 32 \<longrightarrow> h (pSrc + c) = 0"
    and "h pCoef = 0x7FFFFFFF" and "h (pCoef + 1) = 0"
    and "pCoef + 2 ^ 32 \<le> pSrc \<or> pSrc + 32 \<le> pCoef"
    and "pSrc \<le> a" and "a < pSrc + 32"
  shows "first_stage_q31 pSrc 16 pCoef 1 h a =
         (if a = pSrc then 0x1000000
          else if a = pSrc + 8 \<or> a = pSrc + 16 \<or> a = pSrc + 24 then 0xFFFFFE else 0)"
proof -
  define h1 where "h1 = first_stage_dir False pSrc (of_nat 16) pCoef 1 h"
  have h1: "first_stage_q31 pSrc 16 pCoef 1 h = h1"
    by (simp add: h1_def first_stage_q31_dir)
  have buf: "h a = 0" if "pSrc < a" "a < pSrc + 32" for a
    using assms(2) [rule_format, of "a - pSrc"] that by simp
  obtain i where i: "i < 4"
    and mem: "a = pSrc + 2 * i \<or> a = pSrc + 2 * i + 1 \<or>
      a = pSrc + 8 + 2 * i \<or> a = pSrc + 8 + 2 * i + 1 \<or>
      a = pSrc + 16 + 2 * i \<or> a = pSrc + 16 + 2 * i + 1 \<or>
      a = pSrc + 24 + 2 * i \<or> a = pSrc + 24 + 2 * i + 1"
    using assms(6,7) by (rule cell_of_32)
  note vals = first_stage_dir_values [of 16 i pCoef pSrc False 1 h, folded h1_def]
  show ?thesis
  proof (cases "i = 0")
    case True
    have "h1 (pSrc + 2 * i) = 0x1000000" "h1 (pSrc + 2 * i + 1) = 0"
      "h1 (pSrc + 8 + 2 * i) = 0xFFFFFE" "h1 (pSrc + 8 + 2 * i + 1) = 0"
      "h1 (pSrc + 16 + 2 * i) = 0xFFFFFE" "h1 (pSrc + 16 + 2 * i + 1) = 0"
      "h1 (pSrc + 24 + 2 * i) = 0xFFFFFE" "h1 (pSrc + 24 + 2 * i + 1) = 0"
      using vals True assms(1,3,4,5)
      by (simp_all add: buf dir_add_def dir_sub_def mult_hi_def)
    then show ?thesis
      unfolding h1 using mem True i by auto
  next
    case False
    have "h1 (pSrc + 2 * i) = 0" "h1 (pSrc + 2 * i + 1) = 0"
      "h1 (pSrc + 8 + 2 * i) = 0" "h1 (pSrc + 8 + 2 * i + 1) = 0"
      "h1 (pSrc + 16 + 2 * i) = 0" "h1 (pSrc + 16 + 2 * i + 1) = 0"
      "h1 (pSrc + 24 + 2 * i) = 0" "h1 (pSrc + 24 + 2 * i + 1) = 0"
      using vals False i assms(5) by (simp_all add: buf dir_add_def dir_sub_def)
    then show ?thesis
      unfolding h1 using mem False i by auto presburger+
  qed
qed

lemma last_stage_dir_values:
  fixes h :: heap and ifft :: bool and pSrc N g :: nat
  assumes "4 \<le> N" "N < 2 ^ 32" "g < N div 4"
  defines "p \<equiv> pSrc + 8 * g"
  defines "xa \<equiv> h p" and "ya \<equiv> h (p + 1)" and "xb \<equiv> h (p + 2)" and "yb \<equiv> h (p + 3)"
    and "xc \<equiv> h (p + 4)" and "yc \<equiv> h (p + 5)" and "xd \<equiv> h (p + 6)" and "yd \<equiv> h (p + 7)"
    and "h' \<equiv> last_stage_dir ifft pSrc (of_nat N) h"
  shows "h' p = xa + xb + xc + xd"
    and "h' (p + 1) = ya + yb + yc + yd"
    and "h' (p + 2) = xa - xb + xc - xd"
    and "h' (p + 3) = ya - yb + yc - yd"
    and "h' (p + 4) = dir_sub ifft (dir_add ifft xa yb - xc) yd"
    and "h' (p + 5) = dir_add ifft (dir_sub ifft ya xb - yc) xd"
    and "h' (p + 6) = dir_add ifft (dir_sub ifft xa yb - xc) yd"
    and "h' (p + 7) = dir_sub ifft (dir_add ifft ya xb - yc) xd"
  using last_stage_dir_cell [OF assms(1-3), of 0 ifft pSrc h]
    last_stage_dir_cell [OF assms(1-3), of 1 ifft pSrc h]
    last_stage_dir_cell [OF assms(1-3), of 2 ifft pSrc h]
    last_stage_dir_cell [OF assms(1-3), of 3 ifft pSrc h]
    last_stage_dir_cell [OF assms(1-3), of 4 ifft pSrc h]
    last_stage_dir_cell [OF assms(1-3), of 5 ifft pSrc h]
    last_stage_dir_cell [OF assms(1-3), of 6 ifft pSrc h]
    last_stage_dir_cell [OF assms(1-3), of 7 ifft pSrc h]
  unfolding h'_def p_def xa_def ya_def xb_def yb_def xc_def yc_def xd_def yd_def
  by (simp_all add: last_stage_butterfly_dir_def Let_def)

lemma impulse_16_last_stage:
  assumes "h pSrc = 0x10000000"
    and "\<forall>c. 0 < c \<and> c < 32 \<longrightarrow> h (pSrc + c) = 0"
    and "h pCoef = 0x7FFFFFFF" and "h (pCoef + 1) = 0"
    and "pCoef + 2 ^ 32 \<le> pSrc \<or> pSrc + 32 \<le> pCoef"
    and "g < 4"
  defines "h2 \<equiv> last_stage_q31 pSrc 16 (first_stage_q31 pSrc 16 pCoef 1 h)"
  shows "h2 (pSrc + 8 * g) = (if g = 0 then 0x1000000 else 0xFFFFFE)"
    and "h2 (pSrc + 8 * g + 1) = 0"
    and "h2 (pSrc + 8 * g + 2) = (if g = 0 then 0x1000000 else 0xFFFFFE)"
    and "h2 (pSrc + 8 * g + 3) = 0"
    and "h2 (pSrc + 8 * g + 4) = (if g = 0 then 0x1000000 else 0xFFFFFE)"
    and "h2 (pSrc + 8 * g + 5) = 0"
    and "h2 (pSrc + 8 * g + 6) = (if g = 0 then 0x1000000 else 0xFFFFFE)"
    and "h2 (pSrc + 8 * g + 7) = 0"
proof -
  define h1 where "h1 = first_stage_q31 pSrc 16 pCoef 1 h"
  note first = impulse_16_first_stage [OF assms(1-5), folded h1_def]
  have g1: "h1 (pSrc + 8 * g) = (if g = 0 then 0x1000000 else 0xFFFFFE)"
    using first [of "pSrc + 8 * g"] assms(6) by auto
  have off: "h1 (pSrc + 8 * g + k) = 0" if "0 < k" "k < 8" for k
  proof -
    have "8 * g + k \<noteq> 0" "8 * g + k \<noteq> 8" "8 * g + k \<noteq> 16" "8 * g + k \<noteq> 24"
      using that by presburger+
    then have "pSrc + 8 * g + k \<noteq> pSrc" "pSrc + 8 * g + k \<noteq> pSrc + 8"
      "pSrc + 8 * g + k \<noteq> pSrc + 16" "pSrc + 8 * g + k \<noteq> pSrc + 24"
      by simp_all
    moreover have "pSrc \<le> pSrc + 8 * g + k" "pSrc + 8 * g + k < pSrc + 32"
      using that assms(6) by simp_all
    ultimately show ?thesis
      using first [of "pSrc + 8 * g + k"] by simp
  qed
  have g2: "h1 (pSrc + 8 * g + 1) = 0" "h1 (pSrc + 8 * g + 2) = 0" "h1 (pSrc + 8 * g + 3) = 0"
    "h1 (pSrc + 8 * g + 4) = 0" "h1 (pSrc + 8 * g + 5) = 0" "h1 (pSrc + 8 * g + 6) = 0"
    "h1 (pSrc + 8 * g + 7) = 0"
    by (rule off; simp)+
  have h2: "h2 = last_stage_dir False pSrc (of_nat 16) h1"
    by (simp add: h2_def h1_def last_stage_q31_dir)
  have g: "4 \<le> (16::nat)" "(16::nat) < 2 ^ 32" "g < 16 div 4" using assms(6) by simp_all
  note vals = last_stage_dir_values [of 16 g False pSrc h1, OF g, folded h2]
  show "h2 (pSrc + 8 * g) = (if g = 0 then 0x1000000 else 0xFFFFFE)"
    and "h2 (pSrc + 8 * g + 1) = 0"
    and "h2 (pSrc + 8 * g + 2) = (if g = 0 then 0x1000000 else 0xFFFFFE)"
    and "h2 (pSrc + 8 * g + 3) = 0"
    and "h2 (pSrc + 8 * g + 4) = (if g = 0 then 0x1000000 else 0xFFFFFE)"
    and "h2 (pSrc + 8 * g + 5) = 0"
    and "h2 (pSrc + 8 * g + 6) = (if g = 0 then 0x1000000 else 0xFFFFFE)"
    and "h2 (pSrc + 8 * g + 7) = 0"
    by (simp_all only: vals g1 g2 dir_add_def dir_sub_def) simp_all
qed

lemma middle_stages_q31_none: "middle_stages_q31 pSrc len pCoef m n2 4 h = Some h"
  by (subst middle_stages_q31.simps) simp

text \<open>
  C7. Length 16, modifier 1: the buffer holds the impulse \<open>(1 << 28, 0)\<close> in its first
  complex sample and zeros in the other fifteen; the coefficient table lies apart from
  the buffer and starts with the pair of the angle 0, \<open>(0x7FFFFFFF, 0)\<close> (the rest
  of the table does not matter: every other coefficient multiplies a zero). Then the
  forward engine returns, no middle stage runs, and all sixteen bins are real and of
  the same size up to rounding: the imaginary parts are 0, the real parts of bins 0 to
  3 are \<open>2^24\<close>, which is the impulse shifted right by the four guard bits of the first
  stage, and those of bins 4 to 15 are \<open>2^24 - 2\<close>.
\<close>

theorem impulse_16_flat_spectrum:
  assumes "h pSrc = 0x10000000"
    and "\<forall>c. 0 < c \<and> c < 32 \<longrightarrow> h (pSrc + c) = 0"
    and "h pCoef = 0x7FFFFFFF" and "h (pCoef + 1) = 0"
    and "pCoef + 2 ^ 32 \<le> pSrc \<or> pSrc + 32 \<le> pCoef"
  shows "\<exists>h'. riscv_radix4_butterfly_q31 pSrc 16 pCoef 1 h = Some h' \<and>
           (\<forall>b<16. h' (pSrc + 2 * b) = (if b < 4 then 0x1000000 else 0xFFFFFE) \<and>
                    h' (pSrc + 2 * b + 1) = 0 \<and>
                    \<bar>sint (h' (pSrc + 2 * b)) - 2 ^ 28 div 2 ^ 4\<bar> \<le> 2)"
proof -
  define h2 where "h2 = last_stage_q31 pSrc 16 (first_stage_q31 pSrc 16 pCoef 1 h)"
  have run: "riscv_radix4_butterfly_q31 pSrc 16 pCoef 1 h = Some h2"
    by (simp add: riscv_radix4_butterfly_q31_def Let_def middle_stages_q31_none h2_def)
  note group = impulse_16_last_stage [OF assms, folded h2_def]
  have bin: "h2 (pSrc + 2 * b) = (if b < 4 then 0x1000000 else 0xFFFFFE) \<and>
      h2 (pSrc + 2 * b + 1) = 0" if "b < 16" for b
  proof -
    define g where "g = b div 4"
    define r where "r = b mod 4"
    have g: "g < 4" using that by (simp add: g_def)
    have b: "b = 4 * g + r" by (simp add: g_def r_def)
    have "r < 4" by (simp add: r_def)
    then consider "r = 0" | "r = 1" | "r = 2" | "r = 3" by arith
    then show ?thesis
    proof cases
      case 1
      then have e: "pSrc + 2 * b = pSrc + 8 * g"
        using b by simp
      have z: "b < 4 \<longleftrightarrow> g = 0"
        using b \<open>r < 4\<close> by arith
      show ?thesis by (simp only: e z group [OF g])
    next
      case 2
      then have e: "pSrc + 2 * b = pSrc + 8 * g + 2" "pSrc + 8 * g + 2 + 1 = pSrc + 8 * g + 3"
        using b by simp_all
      have z: "b < 4 \<longleftrightarrow> g = 0"
        using b \<open>r < 4\<close> by arith
      show ?thesis by (simp only: e z group [OF g])
    next
      case 3
      then have e: "pSrc + 2 * b = pSrc + 8 * g + 4" "pSrc + 8 * g + 4 + 1 = pSrc + 8 * g + 5"
        using b by simp_all
      have z: "b < 4 \<longleftrightarrow> g = 0"
        using b \<open>r < 4\<close> by arith
      show ?thesis by (simp only: e z group [OF g])
    next
      case 4
      then have e: "pSrc + 2 * b = pSrc + 8 * g + 6" "pSrc + 8 * g + 6 + 1 = pSrc + 8 * g + 7"
        using b by simp_all
      have z: "b < 4 \<longleftrightarrow> g = 0"
        using b \<open>r < 4\<close> by arith
      show ?thesis by (simp only: e z group [OF g])
    qed
  qed
  have "\<bar>sint (h2 (pSrc + 2 * b)) - 2 ^ 28 div 2 ^ 4\<bar> \<le> 2" if "b < 16" for b
    using bin [OF that] by (simp split: if_splits)
  with bin run show ?thesis by simp
qed

text \<open>
  An instance: the buffer at cells 0 to 31, and at cells 32 to 55 a table of the
  cosines and sines of the first twelve multiples of \<open>2\<pi>/16\<close>, rounded to Q31.
\<close>

definition impulse_16_example :: heap where
  "impulse_16_example =
    (\<lambda>a. if a = 0 then 0x10000000
         else if 32 \<le> a \<and> a < 56 then
           [0x7FFFFFFF, 0x0, 0x7641AF3D, 0x30FBC54D, 0x5A82799A, 0x5A82799A,
     0x30FBC54D, 0x7641AF3D, 0x0, 0x7FFFFFFF, 0xCF043AB3, 0x7641AF3D,
     0xA57D8666, 0x5A82799A, 0x89BE50C3, 0x30FBC54D, 0x80000000, 0x0,
     0x89BE50C3, 0xCF043AB3, 0xA57D8666, 0xA57D8666, 0xCF043AB3, 0x89BE50C3] ! (a - 32)
         else 0)"

theorem impulse_16_flat_spectrum_witness:
  "\<exists>h'. riscv_radix4_butterfly_q31 0 16 32 1 impulse_16_example = Some h' \<and>
     h' 0 = 0x1000000 \<and> h' 1 = 0 \<and> h' 6 = 0x1000000 \<and> h' 8 = 0xFFFFFE \<and> h' 9 = 0 \<and>
     h' 30 = 0xFFFFFE \<and> h' 31 = 0"
proof -
  have "\<exists>h'. riscv_radix4_butterfly_q31 0 16 32 1 impulse_16_example = Some h' \<and>
           (\<forall>b<16. h' (0 + 2 * b) = (if b < 4 then 0x1000000 else 0xFFFFFE) \<and>
                    h' (0 + 2 * b + 1) = 0 \<and>
                    \<bar>sint (h' (0 + 2 * b)) - 2 ^ 28 div 2 ^ 4\<bar> \<le> 2)"
    by (rule impulse_16_flat_spectrum) (simp_all add: impulse_16_example_def)
  then obtain h' where run: "riscv_radix4_butterfly_q31 0 16 32 1 impulse_16_example = Some h'"
    and bins: "\<And>b. b < 16 \<Longrightarrow> h' (0 + 2 * b) = (if b < 4 then 0x1000000 else 0xFFFFFE) \<and>
                    h' (0 + 2 * b + 1) = 0"
    by blast
  from bins [of 0] bins [of 3] bins [of 4] bins [of 15]
  have "h' 0 = 0x1000000 \<and> h' 1 = 0 \<and> h' 6 = 0x1000000 \<and> h' 8 = 0xFFFFFE \<and> h' 9 = 0 \<and>
     h' 30 = 0xFFFFFE \<and> h' 31 = 0"
    by simp
  with run show ?thesis by blast
qed

section \<open>The middle-stage loops of the source are those of the one routine\<close>

lemma middle_i0_loop_q31_dir_le:
  assumes "middle_i0_loop_q31 len n1 co1 si1 co2 si2 co3 si3 p0 p1 p2 p3 i0 h = Some y"
  shows "middle_i0_loop_dir False len n1 co1 si1 co2 si2 co3 si3 p0 p1 p2 p3 i0 h = Some y"
proof (rule middle_i0_loop_q31.raw_induct [where P = "\<lambda>len n1 co1 si1 co2 si2 co3 si3 p0 p1 p2 p3 i0 h y.
    middle_i0_loop_dir False len n1 co1 si1 co2 si2 co3 si3 p0 p1 p2 p3 i0 h = Some y", OF _ assms], goal_cases)
  case (1 loop len n1 co1 si1 co2 si2 co3 si3 p0 p1 p2 p3 i0 h y)
  show ?case
    by (subst middle_i0_loop_dir.simps)
      (use 1 in \<open>auto simp add: Let_def bind_eq_Some_conv middle_stage_butterfly_q31_dir split: if_splits\<close>)
qed

lemma middle_i0_loop_q31_dir_ge:
  assumes "middle_i0_loop_dir False len n1 co1 si1 co2 si2 co3 si3 p0 p1 p2 p3 i0 h = Some y"
  shows "middle_i0_loop_q31 len n1 co1 si1 co2 si2 co3 si3 p0 p1 p2 p3 i0 h = Some y"
proof -
  have "(False = False) \<longrightarrow> middle_i0_loop_q31 len n1 co1 si1 co2 si2 co3 si3 p0 p1 p2 p3 i0 h = Some y"
  proof (rule middle_i0_loop_dir.raw_induct [where P = "\<lambda>ifft len n1 co1 si1 co2 si2 co3 si3 p0 p1 p2 p3 i0 h y.
      (ifft = False) \<longrightarrow> middle_i0_loop_q31 len n1 co1 si1 co2 si2 co3 si3 p0 p1 p2 p3 i0 h = Some y", OF _ assms], goal_cases)
    case (1 loop ifft len n1 co1 si1 co2 si2 co3 si3 p0 p1 p2 p3 i0 h y)
    show ?case
      by (subst middle_i0_loop_q31.simps)
        (use 1 in \<open>auto simp add: Let_def bind_eq_Some_conv middle_stage_butterfly_q31_dir split: if_splits\<close>)
  qed
  then show ?thesis by simp
qed

lemma middle_i0_loop_q31_dir:
  "middle_i0_loop_q31 len n1 co1 si1 co2 si2 co3 si3 p0 p1 p2 p3 i0 h = middle_i0_loop_dir False len n1 co1 si1 co2 si2 co3 si3 p0 p1 p2 p3 i0 h"
proof (cases "middle_i0_loop_q31 len n1 co1 si1 co2 si2 co3 si3 p0 p1 p2 p3 i0 h")
  case None
  then show ?thesis
    using middle_i0_loop_q31_dir_ge [of len n1 co1 si1 co2 si2 co3 si3 p0 p1 p2 p3 i0 h]
    by (cases "middle_i0_loop_dir False len n1 co1 si1 co2 si2 co3 si3 p0 p1 p2 p3 i0 h") simp_all
next
  case (Some y)
  then show ?thesis
    using middle_i0_loop_q31_dir_le [of len n1 co1 si1 co2 si2 co3 si3 p0 p1 p2 p3 i0 h y] by simp
qed

lemma middle_j_loop_q31_dir_le:
  assumes "middle_j_loop_q31 pSrc len pCoef m n1 n2 ia1 j h = Some y"
  shows "middle_j_loop_dir False pSrc len pCoef m n1 n2 ia1 j h = Some y"
proof (rule middle_j_loop_q31.raw_induct [where P = "\<lambda>pSrc len pCoef m n1 n2 ia1 j h y.
    middle_j_loop_dir False pSrc len pCoef m n1 n2 ia1 j h = Some y", OF _ assms], goal_cases)
  case (1 loop pSrc len pCoef m n1 n2 ia1 j h y)
  show ?case
    by (subst middle_j_loop_dir.simps)
      (use 1 in \<open>auto simp add: Let_def bind_eq_Some_conv middle_i0_loop_q31_dir split: if_splits\<close>)
qed

lemma middle_j_loop_q31_dir_ge:
  assumes "middle_j_loop_dir False pSrc len pCoef m n1 n2 ia1 j h = Some y"
  shows "middle_j_loop_q31 pSrc len pCoef m n1 n2 ia1 j h = Some y"
proof -
  have "(False = False) \<longrightarrow> middle_j_loop_q31 pSrc len pCoef m n1 n2 ia1 j h = Some y"
  proof (rule middle_j_loop_dir.raw_induct [where P = "\<lambda>ifft pSrc len pCoef m n1 n2 ia1 j h y.
      (ifft = False) \<longrightarrow> middle_j_loop_q31 pSrc len pCoef m n1 n2 ia1 j h = Some y", OF _ assms], goal_cases)
    case (1 loop ifft pSrc len pCoef m n1 n2 ia1 j h y)
    show ?case
      by (subst middle_j_loop_q31.simps)
        (use 1 in \<open>auto simp add: Let_def bind_eq_Some_conv middle_i0_loop_q31_dir split: if_splits\<close>)
  qed
  then show ?thesis by simp
qed

lemma middle_j_loop_q31_dir:
  "middle_j_loop_q31 pSrc len pCoef m n1 n2 ia1 j h = middle_j_loop_dir False pSrc len pCoef m n1 n2 ia1 j h"
proof (cases "middle_j_loop_q31 pSrc len pCoef m n1 n2 ia1 j h")
  case None
  then show ?thesis
    using middle_j_loop_q31_dir_ge [of pSrc len pCoef m n1 n2 ia1 j h]
    by (cases "middle_j_loop_dir False pSrc len pCoef m n1 n2 ia1 j h") simp_all
next
  case (Some y)
  then show ?thesis
    using middle_j_loop_q31_dir_le [of pSrc len pCoef m n1 n2 ia1 j h y] by simp
qed

lemma middle_stages_q31_dir_le:
  assumes "middle_stages_q31 pSrc len pCoef m n2 k h = Some y"
  shows "middle_stages_dir False pSrc len pCoef m n2 k h = Some y"
proof (rule middle_stages_q31.raw_induct [where P = "\<lambda>pSrc len pCoef m n2 k h y.
    middle_stages_dir False pSrc len pCoef m n2 k h = Some y", OF _ assms], goal_cases)
  case (1 loop pSrc len pCoef m n2 k h y)
  show ?case
    by (subst middle_stages_dir.simps)
      (use 1 in \<open>auto simp add: Let_def bind_eq_Some_conv middle_j_loop_q31_dir split: if_splits\<close>)
qed

lemma middle_stages_q31_dir_ge:
  assumes "middle_stages_dir False pSrc len pCoef m n2 k h = Some y"
  shows "middle_stages_q31 pSrc len pCoef m n2 k h = Some y"
proof -
  have "(False = False) \<longrightarrow> middle_stages_q31 pSrc len pCoef m n2 k h = Some y"
  proof (rule middle_stages_dir.raw_induct [where P = "\<lambda>ifft pSrc len pCoef m n2 k h y.
      (ifft = False) \<longrightarrow> middle_stages_q31 pSrc len pCoef m n2 k h = Some y", OF _ assms], goal_cases)
    case (1 loop ifft pSrc len pCoef m n2 k h y)
    show ?case
      by (subst middle_stages_q31.simps)
        (use 1 in \<open>auto simp add: Let_def bind_eq_Some_conv middle_j_loop_q31_dir split: if_splits\<close>)
  qed
  then show ?thesis by simp
qed

lemma middle_stages_q31_dir:
  "middle_stages_q31 pSrc len pCoef m n2 k h = middle_stages_dir False pSrc len pCoef m n2 k h"
proof (cases "middle_stages_q31 pSrc len pCoef m n2 k h")
  case None
  then show ?thesis
    using middle_stages_q31_dir_ge [of pSrc len pCoef m n2 k h]
    by (cases "middle_stages_dir False pSrc len pCoef m n2 k h") simp_all
next
  case (Some y)
  then show ?thesis
    using middle_stages_q31_dir_le [of pSrc len pCoef m n2 k h y] by simp
qed

lemma middle_i0_loop_inverse_q31_dir_le:
  assumes "middle_i0_loop_inverse_q31 len n1 co1 si1 co2 si2 co3 si3 p0 p1 p2 p3 i0 h = Some y"
  shows "middle_i0_loop_dir True len n1 co1 si1 co2 si2 co3 si3 p0 p1 p2 p3 i0 h = Some y"
proof (rule middle_i0_loop_inverse_q31.raw_induct [where P = "\<lambda>len n1 co1 si1 co2 si2 co3 si3 p0 p1 p2 p3 i0 h y.
    middle_i0_loop_dir True len n1 co1 si1 co2 si2 co3 si3 p0 p1 p2 p3 i0 h = Some y", OF _ assms], goal_cases)
  case (1 loop len n1 co1 si1 co2 si2 co3 si3 p0 p1 p2 p3 i0 h y)
  show ?case
    by (subst middle_i0_loop_dir.simps)
      (use 1 in \<open>auto simp add: Let_def bind_eq_Some_conv middle_stage_butterfly_inverse_q31_dir split: if_splits\<close>)
qed

lemma middle_i0_loop_inverse_q31_dir_ge:
  assumes "middle_i0_loop_dir True len n1 co1 si1 co2 si2 co3 si3 p0 p1 p2 p3 i0 h = Some y"
  shows "middle_i0_loop_inverse_q31 len n1 co1 si1 co2 si2 co3 si3 p0 p1 p2 p3 i0 h = Some y"
proof -
  have "(True = True) \<longrightarrow> middle_i0_loop_inverse_q31 len n1 co1 si1 co2 si2 co3 si3 p0 p1 p2 p3 i0 h = Some y"
  proof (rule middle_i0_loop_dir.raw_induct [where P = "\<lambda>ifft len n1 co1 si1 co2 si2 co3 si3 p0 p1 p2 p3 i0 h y.
      (ifft = True) \<longrightarrow> middle_i0_loop_inverse_q31 len n1 co1 si1 co2 si2 co3 si3 p0 p1 p2 p3 i0 h = Some y", OF _ assms], goal_cases)
    case (1 loop ifft len n1 co1 si1 co2 si2 co3 si3 p0 p1 p2 p3 i0 h y)
    show ?case
      by (subst middle_i0_loop_inverse_q31.simps)
        (use 1 in \<open>auto simp add: Let_def bind_eq_Some_conv middle_stage_butterfly_inverse_q31_dir split: if_splits\<close>)
  qed
  then show ?thesis by simp
qed

lemma middle_i0_loop_inverse_q31_dir:
  "middle_i0_loop_inverse_q31 len n1 co1 si1 co2 si2 co3 si3 p0 p1 p2 p3 i0 h = middle_i0_loop_dir True len n1 co1 si1 co2 si2 co3 si3 p0 p1 p2 p3 i0 h"
proof (cases "middle_i0_loop_inverse_q31 len n1 co1 si1 co2 si2 co3 si3 p0 p1 p2 p3 i0 h")
  case None
  then show ?thesis
    using middle_i0_loop_inverse_q31_dir_ge [of len n1 co1 si1 co2 si2 co3 si3 p0 p1 p2 p3 i0 h]
    by (cases "middle_i0_loop_dir True len n1 co1 si1 co2 si2 co3 si3 p0 p1 p2 p3 i0 h") simp_all
next
  case (Some y)
  then show ?thesis
    using middle_i0_loop_inverse_q31_dir_le [of len n1 co1 si1 co2 si2 co3 si3 p0 p1 p2 p3 i0 h y] by simp
qed

lemma middle_j_loop_inverse_q31_dir_le:
  assumes "middle_j_loop_inverse_q31 pSrc len pCoef m n1 n2 ia1 j h = Some y"
  shows "middle_j_loop_dir True pSrc len pCoef m n1 n2 ia1 j h = Some y"
proof (rule middle_j_loop_inverse_q31.raw_induct [where P = "\<lambda>pSrc len pCoef m n1 n2 ia1 j h y.
    middle_j_loop_dir True pSrc len pCoef m n1 n2 ia1 j h = Some y", OF _ assms], goal_cases)
  case (1 loop pSrc len pCoef m n1 n2 ia1 j h y)
  show ?case
    by (subst middle_j_loop_dir.simps)
      (use 1 in \<open>auto simp add: Let_def bind_eq_Some_conv middle_i0_loop_inverse_q31_dir split: if_splits\<close>)
qed

lemma middle_j_loop_inverse_q31_dir_ge:
  assumes "middle_j_loop_dir True pSrc len pCoef m n1 n2 ia1 j h = Some y"
  shows "middle_j_loop_inverse_q31 pSrc len pCoef m n1 n2 ia1 j h = Some y"
proof -
  have "(True = True) \<longrightarrow> middle_j_loop_inverse_q31 pSrc len pCoef m n1 n2 ia1 j h = Some y"
  proof (rule middle_j_loop_dir.raw_induct [where P = "\<lambda>ifft pSrc len pCoef m n1 n2 ia1 j h y.
      (ifft = True) \<longrightarrow> middle_j_loop_inverse_q31 pSrc len pCoef m n1 n2 ia1 j h = Some y", OF _ assms], goal_cases)
    case (1 loop ifft pSrc len pCoef m n1 n2 ia1 j h y)
    show ?case
      by (subst middle_j_loop_inverse_q31.simps)
        (use 1 in \<open>auto simp add: Let_def bind_eq_Some_conv middle_i0_loop_inverse_q31_dir split: if_splits\<close>)
  qed
  then show ?thesis by simp
qed

lemma middle_j_loop_inverse_q31_dir:
  "middle_j_loop_inverse_q31 pSrc len pCoef m n1 n2 ia1 j h = middle_j_loop_dir True pSrc len pCoef m n1 n2 ia1 j h"
proof (cases "middle_j_loop_inverse_q31 pSrc len pCoef m n1 n2 ia1 j h")
  case None
  then show ?thesis
    using middle_j_loop_inverse_q31_dir_ge [of pSrc len pCoef m n1 n2 ia1 j h]
    by (cases "middle_j_loop_dir True pSrc len pCoef m n1 n2 ia1 j h") simp_all
next
  case (Some y)
  then show ?thesis
    using middle_j_loop_inverse_q31_dir_le [of pSrc len pCoef m n1 n2 ia1 j h y] by simp
qed

lemma middle_stages_inverse_q31_dir_le:
  assumes "middle_stages_inverse_q31 pSrc len pCoef m n2 k h = Some y"
  shows "middle_stages_dir True pSrc len pCoef m n2 k h = Some y"
proof (rule middle_stages_inverse_q31.raw_induct [where P = "\<lambda>pSrc len pCoef m n2 k h y.
    middle_stages_dir True pSrc len pCoef m n2 k h = Some y", OF _ assms], goal_cases)
  case (1 loop pSrc len pCoef m n2 k h y)
  show ?case
    by (subst middle_stages_dir.simps)
      (use 1 in \<open>auto simp add: Let_def bind_eq_Some_conv middle_j_loop_inverse_q31_dir split: if_splits\<close>)
qed

lemma middle_stages_inverse_q31_dir_ge:
  assumes "middle_stages_dir True pSrc len pCoef m n2 k h = Some y"
  shows "middle_stages_inverse_q31 pSrc len pCoef m n2 k h = Some y"
proof -
  have "(True = True) \<longrightarrow> middle_stages_inverse_q31 pSrc len pCoef m n2 k h = Some y"
  proof (rule middle_stages_dir.raw_induct [where P = "\<lambda>ifft pSrc len pCoef m n2 k h y.
      (ifft = True) \<longrightarrow> middle_stages_inverse_q31 pSrc len pCoef m n2 k h = Some y", OF _ assms], goal_cases)
    case (1 loop ifft pSrc len pCoef m n2 k h y)
    show ?case
      by (subst middle_stages_inverse_q31.simps)
        (use 1 in \<open>auto simp add: Let_def bind_eq_Some_conv middle_j_loop_inverse_q31_dir split: if_splits\<close>)
  qed
  then show ?thesis by simp
qed

lemma middle_stages_inverse_q31_dir:
  "middle_stages_inverse_q31 pSrc len pCoef m n2 k h = middle_stages_dir True pSrc len pCoef m n2 k h"
proof (cases "middle_stages_inverse_q31 pSrc len pCoef m n2 k h")
  case None
  then show ?thesis
    using middle_stages_inverse_q31_dir_ge [of pSrc len pCoef m n2 k h]
    by (cases "middle_stages_dir True pSrc len pCoef m n2 k h") simp_all
next
  case (Some y)
  then show ?thesis
    using middle_stages_inverse_q31_dir_le [of pSrc len pCoef m n2 k h y] by simp
qed

lemma riscv_radix4_butterfly_q31_dir:
  "riscv_radix4_butterfly_q31 = radix4_butterfly_dir False"
  by (intro ext)
    (simp add: riscv_radix4_butterfly_q31_def radix4_butterfly_dir_def first_stage_q31_dir
      last_stage_q31_dir middle_stages_q31_dir)

lemma riscv_radix4_butterfly_inverse_q31_dir:
  "riscv_radix4_butterfly_inverse_q31 = radix4_butterfly_dir True"
  by (intro ext)
    (simp add: riscv_radix4_butterfly_inverse_q31_def radix4_butterfly_dir_def
      first_stage_inverse_q31_dir last_stage_inverse_q31_dir middle_stages_inverse_q31_dir)

section \<open>The middle stages return and stay inside the buffer\<close>

lemma of_nat_less32:
  "i < 2 ^ 32 \<Longrightarrow> n < 2 ^ 32 \<Longrightarrow> (of_nat i < (of_nat n :: 32 word)) = (i < n)"
  by (simp add: word_less_nat_alt unat_of_nat32)

lemma of_nat_le32:
  "i < 2 ^ 32 \<Longrightarrow> n < 2 ^ 32 \<Longrightarrow> (of_nat i \<le> (of_nat n :: 32 word)) = (i \<le> n)"
  by (simp add: word_le_nat_alt unat_of_nat32)

lemma middle_stage_butterfly_dir_frame:
  "a \<noteq> p0 \<Longrightarrow> a \<noteq> p0 + 1 \<Longrightarrow> a \<noteq> p1 \<Longrightarrow> a \<noteq> p1 + 1 \<Longrightarrow>
   a \<noteq> p2 \<Longrightarrow> a \<noteq> p2 + 1 \<Longrightarrow> a \<noteq> p3 \<Longrightarrow> a \<noteq> p3 + 1 \<Longrightarrow>
   middle_stage_butterfly_dir ifft co1 si1 co2 si2 co3 si3 p0 p1 p2 p3 h a = h a"
  by (simp add: middle_stage_butterfly_dir_def Let_def)

lemma middle_i0_loop_dir_returns:
  fixes T t jj n2 N :: nat
  assumes "0 < n2" "N = 4 * n2 * T" "N < 2 ^ 31" "jj < n2" "t \<le> T" "0 < T"
  shows "\<exists>h'. middle_i0_loop_dir ifft (of_nat N) (of_nat (4 * n2)) co1 si1 co2 si2 co3 si3
            (pSrc + 2 * (jj + 4 * n2 * t)) (pSrc + 2 * (jj + 4 * n2 * t) + 2 * n2)
            (pSrc + 2 * (jj + 4 * n2 * t) + 4 * n2) (pSrc + 2 * (jj + 4 * n2 * t) + 6 * n2)
            (of_nat (jj + 4 * n2 * t)) h = Some h' \<and>
          (\<forall>a. a < pSrc \<or> pSrc + 2 * N \<le> a \<longrightarrow> h' a = h a)"
proof -
  have "4 * n2 * 1 \<le> 4 * n2 * T" using assms(6) by (intro mult_le_mono2) simp
  then have n4: "4 * n2 \<le> N" by (simp add: assms(2))
  show ?thesis
    using assms(5)
proof (induction "T - t" arbitrary: t h)
  case 0
  then have t: "t = T" by simp
  have i: "jj + N < 2 ^ 32" "N < 2 ^ 32" using assms(3,4) n4 by simp_all
  have "\<not> (of_nat (jj + N) < (of_nat N :: 32 word))"
    by (simp only: of_nat_less32 [OF i])
  then show ?case
    by (subst middle_i0_loop_dir.simps) (simp add: t assms(2) [symmetric])
next
  case (Suc d)
  then have t: "t < T" "Suc t \<le> T" "d = T - Suc t" by simp_all
  define i where "i = jj + 4 * n2 * t"
  have "4 * n2 * Suc t \<le> 4 * n2 * T" using t(2) by (intro mult_le_mono) simp_all
  then have i3: "i + 3 * n2 < N" using assms(2,4) by (simp add: i_def)
  then have i: "i < 2 ^ 32" "N < 2 ^ 32" "i < N" "4 * n2 < 2 ^ 31" using assms(1,3) n4 by simp_all
  let ?B = "middle_stage_butterfly_dir ifft co1 si1 co2 si2 co3 si3
     (pSrc + 2 * i) (pSrc + 2 * i + 2 * n2) (pSrc + 2 * i + 4 * n2) (pSrc + 2 * i + 6 * n2) h"
  have nxt: "jj + 4 * n2 * Suc t = i + 4 * n2" by (simp add: i_def)
  have step: "middle_i0_loop_dir ifft (of_nat N) (of_nat (4 * n2)) co1 si1 co2 si2 co3 si3
            (pSrc + 2 * i) (pSrc + 2 * i + 2 * n2) (pSrc + 2 * i + 4 * n2) (pSrc + 2 * i + 6 * n2)
            (of_nat i) h =
        middle_i0_loop_dir ifft (of_nat N) (of_nat (4 * n2)) co1 si1 co2 si2 co3 si3
            (pSrc + 2 * (i + 4 * n2)) (pSrc + 2 * (i + 4 * n2) + 2 * n2)
            (pSrc + 2 * (i + 4 * n2) + 4 * n2) (pSrc + 2 * (i + 4 * n2) + 6 * n2)
            (of_nat (i + 4 * n2)) ?B"
    apply (subst middle_i0_loop_dir.simps)
    apply (simp only: of_nat_less32 [OF i(1,2)] i(3) if_True unat_2_times_of_nat32 [OF i(4)])
    apply (simp add: algebra_simps)
    done
  obtain h' where h': "middle_i0_loop_dir ifft (of_nat N) (of_nat (4 * n2)) co1 si1 co2 si2 co3 si3
            (pSrc + 2 * (i + 4 * n2)) (pSrc + 2 * (i + 4 * n2) + 2 * n2)
            (pSrc + 2 * (i + 4 * n2) + 4 * n2) (pSrc + 2 * (i + 4 * n2) + 6 * n2)
            (of_nat (i + 4 * n2)) ?B = Some h'"
    and fr: "\<And>a. a < pSrc \<or> pSrc + 2 * N \<le> a \<Longrightarrow> h' a = ?B a"
    using Suc.hyps(1) [OF t(3) t(2), of ?B] unfolding nxt by blast
  have "h' a = h a" if "a < pSrc \<or> pSrc + 2 * N \<le> a" for a
  proof -
    have "?B a = h a"
      by (rule middle_stage_butterfly_dir_frame) (use that i3 in auto)
    with fr [OF that] show ?thesis by simp
  qed
  with h' show ?case
    unfolding i_def [symmetric] step by blast
qed
qed

lemma middle_j_loop_dir_returns:
  fixes T jj n2 N :: nat
  assumes "0 < n2" "N = 4 * n2 * T" "N < 2 ^ 31" "0 < T" "jj \<le> n2"
  shows "\<exists>h'. middle_j_loop_dir ifft pSrc (of_nat N) pCoef m (of_nat (4 * n2)) (of_nat n2) ia1
            (of_nat jj) h = Some h' \<and>
          (\<forall>a. a < pSrc \<or> pSrc + 2 * N \<le> a \<longrightarrow> h' a = h a)"
proof -
  have "4 * n2 * 1 \<le> 4 * n2 * T" using assms(4) by (intro mult_le_mono2) simp
  then have n4: "4 * n2 \<le> N" by (simp add: assms(2))
  then have n: "n2 < 2 ^ 32" "n2 - 1 < 2 ^ 32" "n2 < 2 ^ 31" using assms(3) by simp_all
  have n1: "(of_nat n2 :: 32 word) - 1 = of_nat (n2 - 1)" using assms(1) by simp
  show ?thesis
    using assms(5)
  proof (induction "n2 - jj" arbitrary: jj ia1 h)
    case 0
    then have j: "jj = n2" by simp
    have "\<not> (of_nat n2 \<le> (of_nat (n2 - 1) :: 32 word))"
      using assms(1) by (simp only: of_nat_le32 [OF n(1,2)])
    then show ?case
      by (subst middle_j_loop_dir.simps) (simp add: j n1 del: of_nat_diff)
  next
    case (Suc d)
    then have j: "jj < n2" "Suc jj \<le> n2" "d = n2 - Suc jj" by simp_all
    have j32: "jj < 2 ^ 32" "jj < 2 ^ 31" using j(1) n by simp_all
    have c: "of_nat jj \<le> (of_nat n2 :: 32 word) - 1"
      using j(1) unfolding n1 by (simp only: of_nat_le32 [OF j32(1) n(2)])
    obtain h1 where h1: "middle_i0_loop_dir ifft (of_nat N) (of_nat (4 * n2))
           (h (pCoef + unat (ia1 * 2))) (h (pCoef + unat (ia1 * 2 + 1)))
           (h (pCoef + unat ((ia1 + ia1) * 2))) (h (pCoef + unat ((ia1 + ia1) * 2 + 1)))
           (h (pCoef + unat ((ia1 + ia1 + ia1) * 2))) (h (pCoef + unat ((ia1 + ia1 + ia1) * 2 + 1)))
           (pSrc + 2 * (jj + 4 * n2 * 0)) (pSrc + 2 * (jj + 4 * n2 * 0) + 2 * n2)
           (pSrc + 2 * (jj + 4 * n2 * 0) + 4 * n2) (pSrc + 2 * (jj + 4 * n2 * 0) + 6 * n2)
           (of_nat (jj + 4 * n2 * 0)) h = Some h1"
      and f1: "\<And>a. a < pSrc \<or> pSrc + 2 * N \<le> a \<Longrightarrow> h1 a = h a"
      using middle_i0_loop_dir_returns [OF assms(1,2,3) j(1) _ assms(4), of 0] by blast
    obtain h' where h': "middle_j_loop_dir ifft pSrc (of_nat N) pCoef m (of_nat (4 * n2))
          (of_nat n2) (ia1 + m) (of_nat (Suc jj)) h1 = Some h'"
      and f': "\<And>a. a < pSrc \<or> pSrc + 2 * N \<le> a \<Longrightarrow> h' a = h1 a"
      using Suc.hyps(1) [OF j(3) j(2)] by blast
    have "middle_j_loop_dir ifft pSrc (of_nat N) pCoef m (of_nat (4 * n2)) (of_nat n2) ia1
            (of_nat jj) h = Some h'"
      apply (subst middle_j_loop_dir.simps)
      apply (simp only: c if_True Let_def unat_2_times_of_nat32 [OF j32(2)]
          unat_2_times_of_nat32 [OF n(3)])
      using h1 h' apply (simp add: algebra_simps)
      done
    moreover have "h' a = h a" if "a < pSrc \<or> pSrc + 2 * N \<le> a" for a
      using f' [OF that] f1 [OF that] by simp
    ultimately show ?case by blast
  qed
qed

lemma middle_stages_dir_returns:
  assumes "e < K" "K \<le> 15"
  shows "\<exists>h'. middle_stages_dir ifft pSrc (of_nat (4 ^ K)) pCoef m (of_nat (4 ^ e))
            (of_nat (4 ^ e)) h = Some h' \<and>
          (\<forall>a. a < pSrc \<or> pSrc + 2 * 4 ^ K \<le> a \<longrightarrow> h' a = h a)"
  using assms(1)
proof (induction e arbitrary: m h)
  case 0
  show ?case
    by (subst middle_stages_dir.simps) simp
next
  case (Suc e)
  show ?case
  proof (cases "e = 0")
    case True
    then show ?thesis
      by (subst middle_stages_dir.simps) simp
  next
    case False
    have eK: "e < K" "Suc e \<le> K" using Suc.prems by simp_all
    have "(4::nat) ^ K \<le> 4 ^ 15" using assms(2) by (intro power_increasing) simp_all
    then have N: "(4::nat) ^ K < 2 ^ 31" by simp
    have "(4::nat) ^ Suc e \<le> 4 ^ K" using eK(2) by (intro power_increasing) simp_all
    then have e32: "(4::nat) ^ Suc e < 2 ^ 32" using N by simp
    have "(4::nat) ^ 1 < 4 ^ Suc e" using False by (intro power_strict_increasing) simp_all
    then have lt: "(4::nat) < 4 ^ Suc e" by simp
    have four: "(4::nat) < 2 ^ 32" by simp
    have "(of_nat 4 :: 32 word) < of_nat (4 ^ Suc e)"
      unfolding of_nat_less32 [OF four e32] by (rule lt)
    then have c: "(4 :: 32 word) < of_nat (4 ^ Suc e)" by simp
    have d: "drop_bit 2 (of_nat (4 ^ Suc e) :: 32 word) = of_nat (4 ^ e)"
      by (simp only: drop_bit_2_of_nat32 [OF e32]) simp
    have T: "(4::nat) ^ K = 4 * 4 ^ e * 4 ^ (K - Suc e)"
      using eK(2) by (simp flip: power_Suc power_add)
    obtain h1 where h1: "middle_j_loop_dir ifft pSrc (of_nat (4 ^ K)) pCoef m (of_nat (4 * 4 ^ e))
            (of_nat (4 ^ e)) 0 (of_nat 0) h = Some h1"
      and f1: "\<And>a. a < pSrc \<or> pSrc + 2 * 4 ^ K \<le> a \<Longrightarrow> h1 a = h a"
      using middle_j_loop_dir_returns [OF _ T N, of 0 ifft pSrc pCoef m 0 h] by auto
    obtain h' where h': "middle_stages_dir ifft pSrc (of_nat (4 ^ K)) pCoef (push_bit 2 m)
            (of_nat (4 ^ e)) (of_nat (4 ^ e)) h1 = Some h'"
      and f': "\<And>a. a < pSrc \<or> pSrc + 2 * 4 ^ K \<le> a \<Longrightarrow> h' a = h1 a"
      using Suc.IH [OF eK(1), of "push_bit 2 m" h1] by blast
    have "middle_stages_dir ifft pSrc (of_nat (4 ^ K)) pCoef m (of_nat (4 ^ Suc e))
            (of_nat (4 ^ Suc e)) h = Some h'"
      apply (subst middle_stages_dir.simps)
      apply (simp only: c if_True Let_def d)
      using h1 h' apply simp
      done
    moreover have "h' a = h a" if "a < pSrc \<or> pSrc + 2 * 4 ^ K \<le> a" for a
      using f' [OF that] f1 [OF that] by simp
    ultimately show ?thesis by blast
  qed
qed

lemma radix4_butterfly_dir_returns:
  assumes "1 \<le> K" "K \<le> 15"
  shows "\<exists>h'. radix4_butterfly_dir ifft pSrc (4 ^ K) pCoef m h = Some h' \<and>
          (\<forall>a. a < pSrc \<or> pSrc + 2 * 4 ^ K \<le> a \<longrightarrow> h' a = h a)"
proof -
  note N = pow4_bounds [OF assms]
  define h1 where "h1 = first_stage_dir ifft pSrc (of_nat (4 ^ K)) pCoef m h"
  have b: "8 * ((4::nat) ^ K div 4) = 2 * 4 ^ K"
    using assms(1) N(4) by (cases K) simp_all
  have f1: "h1 a = h a" if "a < pSrc \<or> pSrc + 2 * 4 ^ K \<le> a" for a
    unfolding h1_def by (rule first_stage_dir_frame [OF N(1,2)]) (use that b in linarith)
  have d: "drop_bit 2 (of_nat (4 ^ K) :: 32 word) = of_nat (4 ^ (K - 1))"
    "(of_nat (4 ^ K) :: 32 word) div 4 = of_nat (4 ^ (K - 1))"
    using drop_bit_2_of_nat32 [OF N(2)] N(4) by (simp_all add: drop_bit_eq_div)
  obtain h2 where h2: "middle_stages_dir ifft pSrc (of_nat (4 ^ K)) pCoef (push_bit 2 m)
        (of_nat (4 ^ (K - 1))) (of_nat (4 ^ (K - 1))) h1 = Some h2"
    and f2: "\<And>a. a < pSrc \<or> pSrc + 2 * 4 ^ K \<le> a \<Longrightarrow> h2 a = h1 a"
    using middle_stages_dir_returns [OF _ assms(2), of "K - 1" ifft pSrc pCoef "push_bit 2 m" h1]
      assms(1) by auto
  define h3 where "h3 = last_stage_dir ifft pSrc (of_nat (4 ^ K)) h2"
  have f3: "h3 a = h2 a" if "a < pSrc \<or> pSrc + 2 * 4 ^ K \<le> a" for a
    unfolding h3_def by (rule last_stage_dir_frame [OF N(1,2)]) (use that b in linarith)
  have "radix4_butterfly_dir ifft pSrc (4 ^ K) pCoef m h = Some h3"
    unfolding radix4_butterfly_dir_def pow4_word Let_def d
    using h2 by (simp add: h1_def h3_def)
  moreover have "h3 a = h a" if "a < pSrc \<or> pSrc + 2 * 4 ^ K \<le> a" for a
    using f3 [OF that] f2 [OF that] f1 [OF that] by simp
  ultimately show ?thesis by blast
qed

section \<open>Forward and inverse engine\<close>

text \<open>
  C2. For every buffer, length, coefficient table and modifier (so in particular for
  the lengths \<open>4^k\<close>) the forward engine is the one routine \<open>radix4_butterfly_dir\<close>
  run in the forward direction and the inverse engine is the same routine run in the
  inverse direction. In that routine the direction enters only through \<open>dir_add\<close> and
  \<open>dir_sub\<close>: a cross term that the forward run adds is subtracted by the inverse
  run, and the other way round. This is so for the sine product in each of the six
  coefficient multiplications of the first and middle stages, for the cross terms
  \<open>r2 \<plusminus> t1\<close>, \<open>s2 \<plusminus> t2\<close> that feed the second and fourth output, and for the
  \<open>b\<close> and \<open>d\<close> outputs of the last stage. The shifts (\<open>>> 4\<close> on every first-stage
  input, \<open><< 1\<close> on the first-stage products, \<open>>> 2\<close> and \<open>>> 1\<close> in the middle
  stages, none in the last stage) stand in the routine once and do not depend on
  the direction.
\<close>

theorem inverse_engine_is_sign_mirrored_forward_engine:
  "riscv_radix4_butterfly_q31 pSrc len pCoef m h =
     radix4_butterfly_dir False pSrc len pCoef m h \<and>
   riscv_radix4_butterfly_inverse_q31 pSrc len pCoef m h =
     radix4_butterfly_dir True pSrc len pCoef m h \<and>
   dir_add False a b = a + b \<and> dir_add True a b = a - b \<and>
   dir_sub False a b = a - b \<and> dir_sub True a b = a + b"
  by (simp add: riscv_radix4_butterfly_q31_dir riscv_radix4_butterfly_inverse_q31_dir
      dir_add_def dir_sub_def)

text \<open>At length 4, on a buffer of zeros.\<close>

theorem inverse_engine_is_sign_mirrored_forward_engine_witness:
  "riscv_radix4_butterfly_q31 0 4 8 1 (\<lambda>a. 0) = radix4_butterfly_dir False 0 4 8 1 (\<lambda>a. 0) \<and>
   riscv_radix4_butterfly_inverse_q31 0 4 8 1 (\<lambda>a. 0) =
     radix4_butterfly_dir True 0 4 8 1 (\<lambda>a. 0) \<and>
   dir_add False 5 3 = 8 \<and> dir_add True 5 3 = 2 \<and> dir_sub False 5 3 = 2 \<and> dir_sub True 5 3 = 8"
  using inverse_engine_is_sign_mirrored_forward_engine [of 0 4 8 1 "\<lambda>a. 0" 5 3]
  by simp

section \<open>What a call writes\<close>

text \<open>
  C9. The length is \<open>N = 4^k\<close> (with \<open>k \<le> 15\<close>, so that \<open>N\<close> is a \<^verbatim>\<open>uint32_t\<close>). The
  forward and the inverse engine return, and every cell outside the \<open>2N\<close> cells
  \<open>pSrc .. pSrc + 2N - 1\<close> holds afterwards what it held before: the engines write
  the caller's buffer and nothing else. So a coefficient table that lies outside the
  buffer is unchanged, cell by cell. The same holds for a call of
  \<^verbatim>\<open>riscv_cfft_radix4_q31\<close> that returns, provided the bit reversal (which is not in
  the sources) writes inside the buffer only; with the bit-reversal flag off the call
  does return. The instance structure is passed by a pointer to \<^verbatim>\<open>const\<close> and is never
  assigned: in the model it is a value that the call reads, and the result of a
  call is the store alone.
\<close>

theorem cfft_writes_only_the_buffer:
  assumes "1 \<le> k" and "k \<le> 15" and "fftLen S = 4 ^ k"
    and "\<forall>h h'. bitrev pSrc (fftLen S) (bitRevFactor S) (pBitRevTable S) h = Some h' \<longrightarrow>
           (\<forall>a. a < pSrc \<or> pSrc + 2 * 4 ^ k \<le> a \<longrightarrow> h' a = h a)"
  shows
    "(\<exists>h'. riscv_radix4_butterfly_q31 pSrc (fftLen S) (pTwiddle S) (twidCoefModifier S) h =
            Some h' \<and>
          (\<forall>a. a < pSrc \<or> pSrc + 2 * 4 ^ k \<le> a \<longrightarrow> h' a = h a)) \<and>
     (\<exists>h'. riscv_radix4_butterfly_inverse_q31 pSrc (fftLen S) (pTwiddle S) (twidCoefModifier S)
            h = Some h' \<and>
          (\<forall>a. a < pSrc \<or> pSrc + 2 * 4 ^ k \<le> a \<longrightarrow> h' a = h a)) \<and>
     (\<forall>h'. riscv_cfft_radix4_q31 bitrev S pSrc h = Some h' \<longrightarrow>
          (\<forall>a. a < pSrc \<or> pSrc + 2 * 4 ^ k \<le> a \<longrightarrow> h' a = h a) \<and>
          (\<forall>i. pTwiddle S + i < pSrc \<or> pSrc + 2 * 4 ^ k \<le> pTwiddle S + i \<longrightarrow>
               h' (pTwiddle S + i) = h (pTwiddle S + i))) \<and>
     (bitReverseFlag S \<noteq> 1 \<longrightarrow> (\<exists>h'. riscv_cfft_radix4_q31 bitrev S pSrc h = Some h'))"
proof -
  let ?out = "\<lambda>h h'. \<forall>a. a < pSrc \<or> pSrc + 2 * 4 ^ k \<le> a \<longrightarrow> h' a = h a"
  obtain hf where hf: "riscv_radix4_butterfly_q31 pSrc (fftLen S) (pTwiddle S)
      (twidCoefModifier S) h = Some hf" and ff: "?out h hf"
    using radix4_butterfly_dir_returns [OF assms(1,2), of False pSrc "pTwiddle S"
        "twidCoefModifier S" h]
    unfolding riscv_radix4_butterfly_q31_dir assms(3) by blast
  obtain hi where hi: "riscv_radix4_butterfly_inverse_q31 pSrc (fftLen S) (pTwiddle S)
      (twidCoefModifier S) h = Some hi" and fi: "?out h hi"
    using radix4_butterfly_dir_returns [OF assms(1,2), of True pSrc "pTwiddle S"
        "twidCoefModifier S" h]
    unfolding riscv_radix4_butterfly_inverse_q31_dir assms(3) by blast
  define he where "he = (if ifftFlag S = 1 then hi else hf)"
  have fe: "?out h he" using ff fi by (simp add: he_def)
  have call: "riscv_cfft_radix4_q31 bitrev S pSrc h =
      (if bitReverseFlag S = 1
       then bitrev pSrc (fftLen S) (bitRevFactor S) (pBitRevTable S) he else Some he)"
    using hf hi by (simp add: riscv_cfft_radix4_q31_def he_def)
  have "?out h h'" if "riscv_cfft_radix4_q31 bitrev S pSrc h = Some h'" for h'
  proof (cases "bitReverseFlag S = 1")
    case True
    with that call have "bitrev pSrc (fftLen S) (bitRevFactor S) (pBitRevTable S) he = Some h'"
      by simp
    with assms(4) have "?out he h'" by blast
    with fe show ?thesis by simp
  next
    case False
    with that call have "h' = he" by simp
    with fe show ?thesis by simp
  qed
  moreover have "\<exists>h'. riscv_cfft_radix4_q31 bitrev S pSrc h = Some h'"
    if "bitReverseFlag S \<noteq> 1"
    using call that by simp
  ultimately show ?thesis
    using hf ff hi fi by blast
qed

text \<open>
  A length-4 call without bit reversal: the buffer is cells 0 to 7, the table starts
  at cell 8.
\<close>

definition cfft_example_instance :: riscv_cfft_radix4_instance_q31 where
  "cfft_example_instance =
     \<lparr>fftLen = 4, ifftFlag = 0, bitReverseFlag = 0, pTwiddle = 8, pBitRevTable = 20,
      twidCoefModifier = 1, bitRevFactor = 0\<rparr>"

definition cfft_example_store :: heap where
  "cfft_example_store = (\<lambda>a. if a < 8 then 16 * of_nat (a + 1) else 0x7FFFFFFF)"

theorem cfft_writes_only_the_buffer_witness:
  "fftLen cfft_example_instance = 4 ^ 1 \<and>
   (\<exists>h'. riscv_radix4_butterfly_q31 0 4 8 1 cfft_example_store = Some h' \<and>
         h' 8 = cfft_example_store 8 \<and> h' 13 = cfft_example_store 13) \<and>
   (\<exists>h'. riscv_radix4_butterfly_inverse_q31 0 4 8 1 cfft_example_store = Some h' \<and>
         h' 8 = cfft_example_store 8 \<and> h' 13 = cfft_example_store 13) \<and>
   (\<exists>h'. riscv_cfft_radix4_q31 (\<lambda>p n f t h. Some h) cfft_example_instance 0
           cfft_example_store = Some h' \<and>
         h' 8 = cfft_example_store 8 \<and> h' 13 = cfft_example_store 13)"
  using cfft_writes_only_the_buffer [of 1 cfft_example_instance "\<lambda>p n f t h. Some h" 0
      cfft_example_store]
  by (simp add: cfft_example_instance_def) fastforce

section \<open>The middle stages\<close>




lemma middle_stage_butterfly_q31_cells:
  fixes g :: heap and p0 p1 p2 p3 :: nat and co1 si1 co2 si2 co3 si3 :: q31_t
  assumes "p0 + 1 < p1" "p1 + 1 < p2" "p2 + 1 < p3"
  defines "xa \<equiv> g p0" and "ya \<equiv> g (p0 + 1)" and "xb \<equiv> g p1" and "yb \<equiv> g (p1 + 1)"
    and "xc \<equiv> g p2" and "yc \<equiv> g (p2 + 1)" and "xd \<equiv> g p3" and "yd \<equiv> g (p3 + 1)"
    and "B \<equiv> middle_stage_butterfly_q31 co1 si1 co2 si2 co3 si3 p0 p1 p2 p3 g"
  shows "B p0 = signed_drop_bit 2 (xa + xc + (xb + xd))"
    and "B (p0 + 1) = signed_drop_bit 2 (ya + yc + (yb + yd))"
    and "B p1 = signed_drop_bit 1 (mult_hi (xa + xc - (xb + xd)) co2 +
                  mult_hi (ya + yc - (yb + yd)) si2)"
    and "B (p1 + 1) = signed_drop_bit 1 (mult_hi (ya + yc - (yb + yd)) co2 -
                  mult_hi (xa + xc - (xb + xd)) si2)"
    and "B p2 = signed_drop_bit 1 (mult_hi (xa - xc + (yb - yd)) co1 +
                  mult_hi (ya - yc - (xb - xd)) si1)"
    and "B (p2 + 1) = signed_drop_bit 1 (mult_hi (ya - yc - (xb - xd)) co1 -
                  mult_hi (xa - xc + (yb - yd)) si1)"
    and "B p3 = signed_drop_bit 1 (mult_hi (xa - xc - (yb - yd)) co3 +
                  mult_hi (ya - yc + (xb - xd)) si3)"
    and "B (p3 + 1) = signed_drop_bit 1 (mult_hi (ya - yc + (xb - xd)) co3 -
                  mult_hi (xa - xc - (yb - yd)) si3)"
  using assms(1,2,3)
  unfolding B_def xa_def ya_def xb_def yb_def xc_def yc_def xd_def yd_def
  by (simp_all add: middle_stage_butterfly_q31_def Let_def)

section \<open>The first stage reads every sample through the shift by 4\<close>








section \<open>Forward engine, then inverse engine\<close>

text \<open>
  The round trip of the specification: the forward engine on the buffer, then the
  inverse engine on what the forward engine left there. The rescale of the
  specification multiplies a sample by a power of two; it is no part of the
  sources, and is taken here over the integers, where it cannot overflow.
\<close>

definition round_trip_q31 :: "nat \<Rightarrow> uint32_t \<Rightarrow> nat \<Rightarrow> uint32_t \<Rightarrow> heap \<Rightarrow> heap option" where
  "round_trip_q31 pSrc len pCoef m h =
     Option.bind (riscv_radix4_butterfly_q31 pSrc len pCoef m h)
       (riscv_radix4_butterfly_inverse_q31 pSrc len pCoef m)"

definition rescale_q31 :: "nat \<Rightarrow> q31_t \<Rightarrow> int" where
  "rescale_q31 bits x = 2 ^ bits * sint x"





section \<open>Matrix multiplication: the status it returns\<close>











section \<open>A descriptor that is not checked\<close>

lemma no_middle_stage_below_20:
  assumes "(len :: uint32_t) < 20"
  shows "\<not> 4 < len div 4"
proof -
  have "unat len < 20" using assms by (simp add: word_less_nat_alt)
  then have "unat (len div 4) \<le> 4" by (simp add: unat_div)
  then show ?thesis by (simp add: word_less_nat_alt)
qed

lemma riscv_radix4_butterfly_q31_below_20:
  assumes "len < 20"
  shows "riscv_radix4_butterfly_q31 pSrc len pCoef m h =
         Some (last_stage_q31 pSrc len (first_stage_q31 pSrc len pCoef m h))"
  unfolding riscv_radix4_butterfly_q31_def Let_def
  by (subst middle_stages_q31.simps) (simp add: no_middle_stage_below_20 [OF assms])

lemma riscv_radix4_butterfly_inverse_q31_below_20:
  assumes "len < 20"
  shows "riscv_radix4_butterfly_inverse_q31 pSrc len pCoef m h =
         Some (last_stage_inverse_q31 pSrc len (first_stage_inverse_q31 pSrc len pCoef m h))"
  unfolding riscv_radix4_butterfly_inverse_q31_def Let_def
  by (subst middle_stages_inverse_q31.simps) (simp add: no_middle_stage_below_20 [OF assms])




text \<open>
  A length below 4: \<^verbatim>\<open>n2 = fftLen >> 2\<close> is 0, so the four cursors of the first stage
  are the same cell and the counters of the first and of the last
  \<^verbatim>\<open>do ... while (--j)\<close> loop start at 0: each loop makes \<open>2^32\<close> passes.
\<close>

lemma drop_bit_2_below_4: "(len :: uint32_t) < 4 \<Longrightarrow> drop_bit 2 len = 0"
proof -
  assume "len < 4"
  then have "unat len < 4" by (simp add: word_less_nat_alt)
  then have "unat (drop_bit 2 len) = 0" by (simp add: drop_bit_eq_div unat_div)
  then show ?thesis by (simp only: unat_eq_zero)
qed

lemma word32_wraps: "(of_nat (Suc (2 ^ 32 - 1)) :: 32 word) = 0"
  by simp

lemma first_stage_dir_below_4:
  assumes "(len :: uint32_t) < 4"
  shows "first_stage_dir ifft pSrc len pCoef m h =
         first_stage_passes ifft pCoef m pSrc pSrc pSrc pSrc 0 (Suc (2 ^ 32 - 1)) h"
proof -
  have "first_stage_dir ifft pSrc len pCoef m h =
        first_stage_loop_dir ifft pCoef m pSrc pSrc pSrc pSrc 0 (of_nat (Suc (2 ^ 32 - 1))) h"
    by (simp only: first_stage_dir_def Let_def drop_bit_2_below_4 [OF assms] word32_wraps)
      simp
  moreover have "(2 ^ 32 - 1 :: nat) < 2 ^ 32" by simp
  ultimately show ?thesis
    by (simp only: first_stage_loop_dir_passes)
qed

lemma last_stage_dir_below_4:
  assumes "(len :: uint32_t) < 4"
  shows "last_stage_dir ifft pSrc len h = last_stage_passes ifft pSrc (Suc (2 ^ 32 - 1)) h"
proof -
  have "last_stage_dir ifft pSrc len h =
        last_stage_loop_dir ifft pSrc (of_nat (Suc (2 ^ 32 - 1))) h"
    by (simp only: last_stage_dir_def drop_bit_2_below_4 [OF assms] word32_wraps)
  moreover have "(2 ^ 32 - 1 :: nat) < 2 ^ 32" by simp
  ultimately show ?thesis
    by (simp only: last_stage_loop_dir_passes)
qed

lemma stages_run_away_below_4:
  assumes "(len :: uint32_t) < 4"
  shows "last_stage_dir ifft pSrc len (first_stage_dir ifft' pSrc len pCoef m h) (pSrc + 2 ^ 33) =
         h (pSrc + 2 ^ 33) + h (pSrc + 2 ^ 33 + 2) + h (pSrc + 2 ^ 33 + 4) + h (pSrc + 2 ^ 33 + 6)"
proof -
  define h1 where "h1 = first_stage_dir ifft' pSrc len pCoef m h"
  have f: "h1 a = h a" if "pSrc + 2 ^ 33 \<le> a" for a
    unfolding h1_def first_stage_dir_below_4 [OF assms]
    by (rule first_stage_passes_frame) (use that in auto)
  have "last_stage_dir ifft pSrc len h1 (pSrc + 2 ^ 33) =
        last_stage_butterfly_dir ifft (pSrc + 8 * 2 ^ 30) h1 (pSrc + 2 ^ 33)"
    unfolding last_stage_dir_below_4 [OF assms]
    by (rule last_stage_passes_value) simp_all
  also have "\<dots> = h1 (pSrc + 2 ^ 33) + h1 (pSrc + 2 ^ 33 + 2) + h1 (pSrc + 2 ^ 33 + 4) +
      h1 (pSrc + 2 ^ 33 + 6)"
    by (simp add: last_stage_butterfly_dir_def Let_def)
  also have "\<dots> = h (pSrc + 2 ^ 33) + h (pSrc + 2 ^ 33 + 2) + h (pSrc + 2 ^ 33 + 4) +
      h (pSrc + 2 ^ 33 + 6)"
    by (simp only: f [of "pSrc + 2 ^ 33"] f [of "pSrc + 2 ^ 33 + 2"] f [of "pSrc + 2 ^ 33 + 4"]
        f [of "pSrc + 2 ^ 33 + 6"] le_add1 le_refl)
  finally show ?thesis unfolding h1_def .
qed

text \<open>
  A length of 3: the buffer is the six cells 0 to 5. The store holds 1 in the cells
  \<open>2^33\<close>, \<open>2^33 + 2\<close>, \<open>2^33 + 4\<close> and \<open>2^33 + 6\<close> and 0 elsewhere.
\<close>

definition length_3_example :: heap where
  "length_3_example =
    (\<lambda>a. if a = 2 ^ 33 \<or> a = 2 ^ 33 + 2 \<or> a = 2 ^ 33 + 4 \<or> a = 2 ^ 33 + 6 then 1 else 0)"

text \<open>
  C8 does not hold for a length below 4. With the length 3 the call is not stopped,
  but it does not go on to a wrong result in the buffer either: the first stage makes
  \<open>2^32\<close> passes over the \<open>2^33\<close> cells from \<open>pSrc\<close> on and the last stage \<open>2^32\<close> passes
  over \<open>2^35\<close> cells. Here the cell \<open>2^33\<close>, far outside the six cells of the buffer,
  is changed from 1 to 4. A program that does not own that much memory has left its
  memory long before.
\<close>

theorem cfft_length_3_leaves_the_buffer:
  "riscv_cfft_radix4_q31 (\<lambda>pSrc fftLen bitRevFactor pBitRevTab h. None)
     \<lparr>fftLen = 3, ifftFlag = 0, bitReverseFlag = 0, pTwiddle = 64, pBitRevTable = 0,
      twidCoefModifier = 1, bitRevFactor = 1\<rparr> 0 length_3_example =
     Some (last_stage_q31 0 3 (first_stage_q31 0 3 64 1 length_3_example)) \<and>
   length_3_example (2 ^ 33) = 1 \<and>
   last_stage_q31 0 3 (first_stage_q31 0 3 64 1 length_3_example) (2 ^ 33) = 4"
proof -
  have "last_stage_q31 0 3 (first_stage_q31 0 3 64 1 length_3_example) (0 + 2 ^ 33) = 4"
    unfolding last_stage_q31_dir first_stage_q31_dir
    by (subst stages_run_away_below_4) (simp_all add: length_3_example_def)
  then show ?thesis
    by (simp add: riscv_cfft_radix4_q31_def riscv_radix4_butterfly_q31_below_20
        length_3_example_def)
qed



section \<open>What one middle stage stores\<close>

text \<open>
  The eight cells of the butterfly whose first sample is at the cell \<open>p\<close>, in a stage
  of sub-block size \<open>4 * n2\<close>.
\<close>

definition middle_cells :: "nat \<Rightarrow> nat \<Rightarrow> nat set" where
  "middle_cells p n2 =
     {p, p + 1, p + 2 * n2, p + 2 * n2 + 1, p + 4 * n2, p + 4 * n2 + 1, p + 6 * n2,
      p + 6 * n2 + 1}"

lemma middle_cells_range:
  assumes "a \<in> middle_cells p n2" "0 < n2"
  shows "p \<le> a" "a < p + 8 * n2"
  using assms by (auto simp add: middle_cells_def)

lemma middle_cells_row:
  assumes "a \<in> middle_cells (pSrc + 2 * (j + 4 * n2 * t)) n2" "j < n2"
  shows "(a - pSrc) div 2 mod n2 = j"
proof -
  have m: "(j + n2 * k) mod n2 = j" for k using assms(2) by simp
  have "\<exists>k b. a - pSrc = 2 * (j + n2 * k) + b \<and> b < 2"
  proof -
    from assms(1) consider
        "a - pSrc = 2 * (j + n2 * (4 * t)) + 0" | "a - pSrc = 2 * (j + n2 * (4 * t)) + 1"
      | "a - pSrc = 2 * (j + n2 * (4 * t + 1)) + 0" | "a - pSrc = 2 * (j + n2 * (4 * t + 1)) + 1"
      | "a - pSrc = 2 * (j + n2 * (4 * t + 2)) + 0" | "a - pSrc = 2 * (j + n2 * (4 * t + 2)) + 1"
      | "a - pSrc = 2 * (j + n2 * (4 * t + 3)) + 0" | "a - pSrc = 2 * (j + n2 * (4 * t + 3)) + 1"
      by (auto simp add: middle_cells_def algebra_simps)
    then show ?thesis
      by cases (rule exI, rule exI, erule conjI, simp)+
  qed
  then obtain k b where e: "a - pSrc = 2 * (j + n2 * k) + b" and b: "b < 2" by blast
  have "(2 * (j + n2 * k) + b) div 2 = j + n2 * k" using b by simp
  then show ?thesis by (simp only: e m)
qed

lemma middle_stage_butterfly_dir_cells_frame:
  "a \<notin> middle_cells p n2 \<Longrightarrow>
   middle_stage_butterfly_dir ifft co1 si1 co2 si2 co3 si3 p (p + 2 * n2) (p + 4 * n2)
     (p + 6 * n2) h a = h a"
  by (rule middle_stage_butterfly_dir_frame) (auto simp add: middle_cells_def)

lemma middle_stage_butterfly_dir_local:
  assumes "0 < n2"
    and agree: "\<And>c. c \<in> middle_cells p n2 \<Longrightarrow> h' c = h c"
    and a: "a \<in> middle_cells p n2"
  shows "middle_stage_butterfly_dir ifft co1 si1 co2 si2 co3 si3 p (p + 2 * n2) (p + 4 * n2)
           (p + 6 * n2) h' a =
         middle_stage_butterfly_dir ifft co1 si1 co2 si2 co3 si3 p (p + 2 * n2) (p + 4 * n2)
           (p + 6 * n2) h a"
proof -
  have ag: "h' p = h p" "h' (Suc p) = h (Suc p)"
    "h' (p + 2 * n2) = h (p + 2 * n2)" "h' (Suc (p + 2 * n2)) = h (Suc (p + 2 * n2))"
    "h' (p + 4 * n2) = h (p + 4 * n2)" "h' (Suc (p + 4 * n2)) = h (Suc (p + 4 * n2))"
    "h' (p + 6 * n2) = h (p + 6 * n2)" "h' (Suc (p + 6 * n2)) = h (Suc (p + 6 * n2))"
    using agree by (simp_all add: middle_cells_def)
  from a assms(1) show ?thesis
    by (auto simp add: middle_cells_def middle_stage_butterfly_dir_def Let_def ag)
qed

lemma middle_cells_blocks_apart:
  assumes "a \<in> middle_cells (pSrc + 2 * (j + 4 * n2 * t)) n2" "0 < n2" "t \<noteq> t'"
  shows "a \<notin> middle_cells (pSrc + 2 * (j + 4 * n2 * t')) n2"
proof
  assume b: "a \<in> middle_cells (pSrc + 2 * (j + 4 * n2 * t')) n2"
  note r = middle_cells_range [OF assms(1,2)] middle_cells_range [OF b assms(2)]
  consider "t < t'" | "t' < t" using assms(3) by arith
  then show False
  proof cases
    case 1
    then have "n2 * Suc t \<le> n2 * t'" by (intro mult_le_mono2) simp
    then show False using r by (simp add: algebra_simps)
  next
    case 2
    then have "n2 * Suc t' \<le> n2 * t" by (intro mult_le_mono2) simp
    then show False using r by (simp add: algebra_simps)
  qed
qed

lemma middle_i0_loop_dir_values:
  fixes T t jj n2 N :: nat
  assumes "0 < n2" "N = 4 * n2 * T" "N < 2 ^ 31" "jj < n2" "t \<le> T" "0 < T"
  shows "\<exists>h'. middle_i0_loop_dir ifft (of_nat N) (of_nat (4 * n2)) co1 si1 co2 si2 co3 si3
            (pSrc + 2 * (jj + 4 * n2 * t)) (pSrc + 2 * (jj + 4 * n2 * t) + 2 * n2)
            (pSrc + 2 * (jj + 4 * n2 * t) + 4 * n2) (pSrc + 2 * (jj + 4 * n2 * t) + 6 * n2)
            (of_nat (jj + 4 * n2 * t)) h = Some h' \<and>
          (\<forall>a. (\<forall>t'. t \<le> t' \<and> t' < T \<longrightarrow> a \<notin> middle_cells (pSrc + 2 * (jj + 4 * n2 * t')) n2) \<longrightarrow>
               h' a = h a) \<and>
          (\<forall>t' a. t \<le> t' \<and> t' < T \<and> a \<in> middle_cells (pSrc + 2 * (jj + 4 * n2 * t')) n2 \<longrightarrow>
               h' a = middle_stage_butterfly_dir ifft co1 si1 co2 si2 co3 si3
                        (pSrc + 2 * (jj + 4 * n2 * t')) (pSrc + 2 * (jj + 4 * n2 * t') + 2 * n2)
                        (pSrc + 2 * (jj + 4 * n2 * t') + 4 * n2)
                        (pSrc + 2 * (jj + 4 * n2 * t') + 6 * n2) h a)"
proof -
  have "4 * n2 * 1 \<le> 4 * n2 * T" using assms(6) by (intro mult_le_mono2) simp
  then have n4: "4 * n2 \<le> N" by (simp add: assms(2))
  show ?thesis
    using assms(5)
proof (induction "T - t" arbitrary: t h)
  case 0
  then have t: "t = T" by simp
  have i: "jj + N < 2 ^ 32" "N < 2 ^ 32" using assms(3,4) n4 by simp_all
  have "\<not> (of_nat (jj + N) < (of_nat N :: 32 word))"
    by (simp only: of_nat_less32 [OF i])
  then show ?case
    by (subst middle_i0_loop_dir.simps) (auto simp add: t assms(2) [symmetric])
next
  case (Suc d)
  then have t: "t < T" "Suc t \<le> T" "d = T - Suc t" by simp_all
  define i where "i = jj + 4 * n2 * t"
  define P where "P = (\<lambda>t'. pSrc + 2 * (jj + 4 * n2 * t'))"
  define B where "B = (\<lambda>t' h. middle_stage_butterfly_dir ifft co1 si1 co2 si2 co3 si3
     (P t') (P t' + 2 * n2) (P t' + 4 * n2) (P t' + 6 * n2) h)"
  have "4 * n2 * Suc t \<le> 4 * n2 * T" using t(2) by (intro mult_le_mono) simp_all
  then have i3: "i + 3 * n2 < N" using assms(2,4) by (simp add: i_def)
  then have i: "i < 2 ^ 32" "N < 2 ^ 32" "i < N" "4 * n2 < 2 ^ 31" using assms(1,3) n4 by simp_all
  have Pt: "P t = pSrc + 2 * i" unfolding P_def i_def by simp
  have nxt: "jj + 4 * n2 * Suc t = i + 4 * n2" by (simp add: i_def)
  have PS: "P (Suc t) = pSrc + 2 * (i + 4 * n2)" unfolding P_def nxt by simp
  have step: "middle_i0_loop_dir ifft (of_nat N) (of_nat (4 * n2)) co1 si1 co2 si2 co3 si3
            (pSrc + 2 * i) (pSrc + 2 * i + 2 * n2) (pSrc + 2 * i + 4 * n2) (pSrc + 2 * i + 6 * n2)
            (of_nat i) h =
        middle_i0_loop_dir ifft (of_nat N) (of_nat (4 * n2)) co1 si1 co2 si2 co3 si3
            (pSrc + 2 * (i + 4 * n2)) (pSrc + 2 * (i + 4 * n2) + 2 * n2)
            (pSrc + 2 * (i + 4 * n2) + 4 * n2) (pSrc + 2 * (i + 4 * n2) + 6 * n2)
            (of_nat (i + 4 * n2)) (B t h)"
    unfolding B_def Pt
    apply (subst middle_i0_loop_dir.simps)
    apply (simp only: of_nat_less32 [OF i(1,2)] i(3) if_True unat_2_times_of_nat32 [OF i(4)])
    apply (simp add: algebra_simps)
    done
  obtain h' where h': "middle_i0_loop_dir ifft (of_nat N) (of_nat (4 * n2)) co1 si1 co2 si2 co3 si3
            (pSrc + 2 * (i + 4 * n2)) (pSrc + 2 * (i + 4 * n2) + 2 * n2)
            (pSrc + 2 * (i + 4 * n2) + 4 * n2) (pSrc + 2 * (i + 4 * n2) + 6 * n2)
            (of_nat (i + 4 * n2)) (B t h) = Some h'"
    and fr: "\<And>a. (\<And>t'. Suc t \<le> t' \<Longrightarrow> t' < T \<Longrightarrow> a \<notin> middle_cells (P t') n2) \<Longrightarrow>
               h' a = B t h a"
    and vl: "\<And>t' a. Suc t \<le> t' \<Longrightarrow> t' < T \<Longrightarrow> a \<in> middle_cells (P t') n2 \<Longrightarrow>
               h' a = B t' (B t h) a"
    using Suc.hyps(1) [OF t(3) t(2), of "B t h"] unfolding nxt B_def P_def by blast
  have frame: "h' a = h a" if "\<And>t'. t \<le> t' \<Longrightarrow> t' < T \<Longrightarrow> a \<notin> middle_cells (P t') n2" for a
  proof -
    have "h' a = B t h a" by (rule fr) (use that in simp)
    also have "\<dots> = h a"
      unfolding B_def by (rule middle_stage_butterfly_dir_cells_frame) (use that t in simp)
    finally show ?thesis .
  qed
  have vals: "h' a = B t' h a" if "t \<le> t'" "t' < T" "a \<in> middle_cells (P t') n2" for t' a
  proof (cases "t' = t")
    case True
    have "h' a = B t h a"
    proof (rule fr)
      fix t'' assume "Suc t \<le> t''" "t'' < T"
      then have "t \<noteq> t''" by simp
      then show "a \<notin> middle_cells (P t'') n2"
        using that(3) unfolding True P_def
        by (intro middle_cells_blocks_apart [OF _ assms(1)])
    qed
    then show ?thesis by (simp add: True)
  next
    case False
    then have t': "Suc t \<le> t'" using that(1) by simp
    have "h' a = B t' (B t h) a" by (rule vl [OF t' that(2,3)])
    also have "\<dots> = B t' h a"
      unfolding B_def
    proof (rule middle_stage_butterfly_dir_local [OF assms(1) _ that(3)])
      fix c assume "c \<in> middle_cells (P t') n2"
      then have "c \<notin> middle_cells (P t) n2"
        unfolding P_def by (intro middle_cells_blocks_apart [OF _ assms(1)]) (use False in simp_all)
      then show "middle_stage_butterfly_dir ifft co1 si1 co2 si2 co3 si3 (P t) (P t + 2 * n2)
          (P t + 4 * n2) (P t + 6 * n2) h c = h c"
        by (rule middle_stage_butterfly_dir_cells_frame)
    qed
    finally show ?thesis .
  qed
  from h' frame vals show ?case
    unfolding i_def [symmetric] step B_def P_def by blast
qed
qed

text \<open>
  One butterfly of a middle stage, with its six coefficients read from the store at
  the index \<open>ia1\<close> as the \<open>j\<close> loop reads them.
\<close>

definition middle_stage_pass :: "bool \<Rightarrow> nat \<Rightarrow> uint32_t \<Rightarrow> nat \<Rightarrow> nat \<Rightarrow> heap \<Rightarrow> heap" where
  "middle_stage_pass ifft pCoef ia1 p n2 h =
     middle_stage_butterfly_dir ifft
       (h (pCoef + unat (ia1 * 2))) (h (pCoef + unat (ia1 * 2 + 1)))
       (h (pCoef + unat ((ia1 + ia1) * 2))) (h (pCoef + unat ((ia1 + ia1) * 2 + 1)))
       (h (pCoef + unat ((ia1 + ia1 + ia1) * 2))) (h (pCoef + unat ((ia1 + ia1 + ia1) * 2 + 1)))
       p (p + 2 * n2) (p + 4 * n2) (p + 6 * n2) h"

lemma middle_cells_in_buffer:
  assumes "a \<in> middle_cells (pSrc + 2 * (j + 4 * n2 * t)) n2" "j < n2" "t < T"
  shows "pSrc \<le> a" "a < pSrc + 2 * (4 * n2 * T)"
proof -
  have n2: "0 < n2" using assms(2) by simp
  note r = middle_cells_range [OF assms(1) n2]
  show "pSrc \<le> a" using r(1) by simp
  have "n2 * Suc t \<le> n2 * T" using assms(3) by (intro mult_le_mono2) simp
  then have "8 * (n2 * t) + 8 * n2 \<le> 8 * (n2 * T)" by simp
  moreover have "a \<le> pSrc + 2 * (j + 4 * n2 * t) + 6 * n2 + 1"
    using assms(1) by (auto simp add: middle_cells_def)
  ultimately show "a < pSrc + 2 * (4 * n2 * T)"
    using assms(2) by (simp add: algebra_simps)
qed

lemma middle_cells_rows_apart:
  assumes "a \<in> middle_cells (pSrc + 2 * (j + 4 * n2 * t)) n2" "j < n2" "j' < n2" "j \<noteq> j'"
  shows "a \<notin> middle_cells (pSrc + 2 * (j' + 4 * n2 * t')) n2"
  using middle_cells_row [OF assms(1,2)] middle_cells_row [of a pSrc j' n2 t', OF _ assms(3)]
    assms(4)
  by auto

lemma middle_stage_pass_local:
  assumes "0 < n2"
    and "\<And>c. c \<in> middle_cells p n2 \<Longrightarrow> h' c = h c"
    and "\<And>w :: 32 word. h' (pCoef + unat w) = h (pCoef + unat w)"
    and "a \<in> middle_cells p n2"
  shows "middle_stage_pass ifft pCoef ia1 p n2 h' a = middle_stage_pass ifft pCoef ia1 p n2 h a"
  unfolding middle_stage_pass_def assms(3)
  by (rule middle_stage_butterfly_dir_local [OF assms(1,2,4)])

lemma middle_j_loop_dir_values:
  fixes T jj n2 N :: nat
  assumes "0 < n2" "N = 4 * n2 * T" "N < 2 ^ 31" "0 < T" "jj \<le> n2"
    and apart: "pCoef + 2 ^ 32 \<le> pSrc \<or> pSrc + 2 * N \<le> pCoef"
  shows "\<exists>h'. middle_j_loop_dir ifft pSrc (of_nat N) pCoef m (of_nat (4 * n2)) (of_nat n2) ia1
            (of_nat jj) h = Some h' \<and>
          (\<forall>a. (\<forall>j t. jj \<le> j \<and> j < n2 \<and> t < T \<longrightarrow>
                   a \<notin> middle_cells (pSrc + 2 * (j + 4 * n2 * t)) n2) \<longrightarrow> h' a = h a) \<and>
          (\<forall>j t a. jj \<le> j \<and> j < n2 \<and> t < T \<and>
                   a \<in> middle_cells (pSrc + 2 * (j + 4 * n2 * t)) n2 \<longrightarrow>
               h' a = middle_stage_pass ifft pCoef (ia1 + of_nat (j - jj) * m)
                        (pSrc + 2 * (j + 4 * n2 * t)) n2 h a)"
proof -
  have "4 * n2 * 1 \<le> 4 * n2 * T" using assms(4) by (intro mult_le_mono2) simp
  then have n4: "4 * n2 \<le> N" by (simp add: assms(2))
  then have n: "n2 < 2 ^ 32" "n2 - 1 < 2 ^ 32" "n2 < 2 ^ 31" using assms(3) by simp_all
  have n1: "(of_nat n2 :: 32 word) - 1 = of_nat (n2 - 1)" using assms(1) by simp
  define C where "C = (\<lambda>j t. middle_cells (pSrc + 2 * (j + 4 * n2 * t)) n2)"
  have tbl: "pCoef + unat w \<notin> C j t" if "j < n2" "t < T" for w :: "32 word" and j t
  proof
    assume "pCoef + unat w \<in> C j t"
    from middle_cells_in_buffer [OF this [unfolded C_def] that]
    show False
      using apart unsigned_less [of w, where 'a = nat] by (simp add: assms(2))
  qed
  show ?thesis
    using assms(5)
  proof (induction "n2 - jj" arbitrary: jj ia1 h)
    case 0
    then have j: "jj = n2" by simp
    have "\<not> (of_nat n2 \<le> (of_nat (n2 - 1) :: 32 word))"
      using assms(1) by (simp only: of_nat_le32 [OF n(1,2)])
    then show ?case
      by (subst middle_j_loop_dir.simps) (auto simp add: j n1 simp del: of_nat_diff)
  next
    case (Suc d)
    then have j: "jj < n2" "Suc jj \<le> n2" "d = n2 - Suc jj" by simp_all
    have j32: "jj < 2 ^ 32" "jj < 2 ^ 31" using j(1) n by simp_all
    have c: "of_nat jj \<le> (of_nat n2 :: 32 word) - 1"
      using j(1) unfolding n1 by (simp only: of_nat_le32 [OF j32(1) n(2)])
    obtain h1 where h1: "middle_i0_loop_dir ifft (of_nat N) (of_nat (4 * n2))
           (h (pCoef + unat (ia1 * 2))) (h (pCoef + unat (ia1 * 2 + 1)))
           (h (pCoef + unat ((ia1 + ia1) * 2))) (h (pCoef + unat ((ia1 + ia1) * 2 + 1)))
           (h (pCoef + unat ((ia1 + ia1 + ia1) * 2))) (h (pCoef + unat ((ia1 + ia1 + ia1) * 2 + 1)))
           (pSrc + 2 * (jj + 4 * n2 * 0)) (pSrc + 2 * (jj + 4 * n2 * 0) + 2 * n2)
           (pSrc + 2 * (jj + 4 * n2 * 0) + 4 * n2) (pSrc + 2 * (jj + 4 * n2 * 0) + 6 * n2)
           (of_nat (jj + 4 * n2 * 0)) h = Some h1"
      and f1: "\<And>a. (\<And>t. t < T \<Longrightarrow> a \<notin> C jj t) \<Longrightarrow> h1 a = h a"
      and v1: "\<And>t a. t < T \<Longrightarrow> a \<in> C jj t \<Longrightarrow>
                 h1 a = middle_stage_pass ifft pCoef ia1 (pSrc + 2 * (jj + 4 * n2 * t)) n2 h a"
      using middle_i0_loop_dir_values [OF assms(1,2,3) j(1) _ assms(4), of 0 ifft
          "h (pCoef + unat (ia1 * 2))" "h (pCoef + unat (ia1 * 2 + 1))"
          "h (pCoef + unat ((ia1 + ia1) * 2))" "h (pCoef + unat ((ia1 + ia1) * 2 + 1))"
          "h (pCoef + unat ((ia1 + ia1 + ia1) * 2))" "h (pCoef + unat ((ia1 + ia1 + ia1) * 2 + 1))"
          pSrc h]
      unfolding C_def middle_stage_pass_def by auto
    obtain h' where h': "middle_j_loop_dir ifft pSrc (of_nat N) pCoef m (of_nat (4 * n2))
          (of_nat n2) (ia1 + m) (of_nat (Suc jj)) h1 = Some h'"
      and f': "\<And>a. (\<And>j t. Suc jj \<le> j \<Longrightarrow> j < n2 \<Longrightarrow> t < T \<Longrightarrow> a \<notin> C j t) \<Longrightarrow> h' a = h1 a"
      and v': "\<And>j t a. Suc jj \<le> j \<Longrightarrow> j < n2 \<Longrightarrow> t < T \<Longrightarrow> a \<in> C j t \<Longrightarrow>
                 h' a = middle_stage_pass ifft pCoef (ia1 + m + of_nat (j - Suc jj) * m)
                          (pSrc + 2 * (j + 4 * n2 * t)) n2 h1 a"
      using Suc.hyps(1) [OF j(3) j(2), of "ia1 + m" h1] unfolding C_def by blast
    have run: "middle_j_loop_dir ifft pSrc (of_nat N) pCoef m (of_nat (4 * n2)) (of_nat n2) ia1
            (of_nat jj) h = Some h'"
      apply (subst middle_j_loop_dir.simps)
      apply (simp only: c if_True Let_def unat_2_times_of_nat32 [OF j32(2)]
          unat_2_times_of_nat32 [OF n(3)])
      using h1 h' apply (simp add: algebra_simps)
      done
    have t1: "h1 (pCoef + unat w) = h (pCoef + unat w)" for w :: "32 word"
      by (rule f1) (rule tbl [OF j(1)])
    have frame: "h' a = h a" if "\<And>j t. jj \<le> j \<Longrightarrow> j < n2 \<Longrightarrow> t < T \<Longrightarrow> a \<notin> C j t" for a
    proof -
      have "h' a = h1 a" by (rule f') (use that in simp)
      also have "\<dots> = h a" by (rule f1) (use that j(1) in simp)
      finally show ?thesis .
    qed
    have vals: "h' a = middle_stage_pass ifft pCoef (ia1 + of_nat (j - jj) * m)
                        (pSrc + 2 * (j + 4 * n2 * t)) n2 h a"
      if "jj \<le> j" "j < n2" "t < T" "a \<in> C j t" for j t a
    proof (cases "j = jj")
      case True
      have "h' a = h1 a"
      proof (rule f')
        fix j' t' assume "Suc jj \<le> j'" "j' < n2" "t' < T"
        then show "a \<notin> C j' t'"
          using that(4) unfolding C_def True
          by (intro middle_cells_rows_apart [OF _ j(1)]) simp_all
      qed
      also have "\<dots> = middle_stage_pass ifft pCoef ia1 (pSrc + 2 * (jj + 4 * n2 * t)) n2 h a"
        by (rule v1 [OF that(3)]) (use that(4) True in simp)
      finally show ?thesis by (simp add: True)
    next
      case False
      then have j': "Suc jj \<le> j" using that(1) by simp
      then have ix: "ia1 + m + of_nat (j - Suc jj) * m = ia1 + of_nat (j - jj) * m"
        by (simp add: Suc_diff_le algebra_simps of_nat_diff)
      have "h' a = middle_stage_pass ifft pCoef (ia1 + m + of_nat (j - Suc jj) * m)
                          (pSrc + 2 * (j + 4 * n2 * t)) n2 h1 a"
        by (rule v' [OF j' that(2,3,4)])
      also have "\<dots> = middle_stage_pass ifft pCoef (ia1 + m + of_nat (j - Suc jj) * m)
                          (pSrc + 2 * (j + 4 * n2 * t)) n2 h a"
      proof (rule middle_stage_pass_local [where h' = h1 and h = h])
        show "0 < n2" by fact
        show "h1 (pCoef + unat w) = h (pCoef + unat w)" for w :: "32 word" by (rule t1)
        show "a \<in> middle_cells (pSrc + 2 * (j + 4 * n2 * t)) n2"
          using that(4) unfolding C_def .
        fix c assume "c \<in> middle_cells (pSrc + 2 * (j + 4 * n2 * t)) n2"
        then have "c \<notin> C jj t'" for t'
          unfolding C_def by (intro middle_cells_rows_apart [OF _ that(2) j(1) False])
        then show "h1 c = h c" by (intro f1)
      qed
      finally show ?thesis unfolding ix .
    qed
    from run frame vals show ?case unfolding C_def by blast
  qed
qed

lemma middle_stage_q31_values:
  fixes h :: heap and K e j t pSrc pCoef :: nat and m :: uint32_t
  assumes "e < K" "K \<le> 15" "j < 4 ^ e" "t < 4 ^ (K - Suc e)"
    and "pCoef + 2 ^ 32 \<le> pSrc \<or> pSrc + 2 * 4 ^ K \<le> pCoef"
  defines "p0 \<equiv> pSrc + 2 * (j + 4 ^ Suc e * t)"
  defines "p1 \<equiv> p0 + 2 * 4 ^ e" and "p2 \<equiv> p0 + 4 * 4 ^ e" and "p3 \<equiv> p0 + 6 * 4 ^ e"
  defines "xa \<equiv> h p0" and "ya \<equiv> h (p0 + 1)" and "xb \<equiv> h p1" and "yb \<equiv> h (p1 + 1)"
    and "xc \<equiv> h p2" and "yc \<equiv> h (p2 + 1)" and "xd \<equiv> h p3" and "yd \<equiv> h (p3 + 1)"
    and "co1 \<equiv> h (pCoef + unat (of_nat j * m * 2))"
    and "si1 \<equiv> h (pCoef + unat (of_nat j * m * 2 + 1))"
    and "co2 \<equiv> h (pCoef + unat (2 * (of_nat j * m) * 2))"
    and "si2 \<equiv> h (pCoef + unat (2 * (of_nat j * m) * 2 + 1))"
    and "co3 \<equiv> h (pCoef + unat (3 * (of_nat j * m) * 2))"
    and "si3 \<equiv> h (pCoef + unat (3 * (of_nat j * m) * 2 + 1))"
  shows "\<exists>h'. middle_j_loop_q31 pSrc (4 ^ K) pCoef m (4 ^ Suc e) (4 ^ Suc e div 4) 0 0 h = Some h' \<and>
     h' p0 = signed_drop_bit 2 (xa + xc + (xb + xd)) \<and>
     h' (p0 + 1) = signed_drop_bit 2 (ya + yc + (yb + yd)) \<and>
     h' p1 = signed_drop_bit 1 (mult_hi (xa + xc - (xb + xd)) co2 +
               mult_hi (ya + yc - (yb + yd)) si2) \<and>
     h' (p1 + 1) = signed_drop_bit 1 (mult_hi (ya + yc - (yb + yd)) co2 -
               mult_hi (xa + xc - (xb + xd)) si2) \<and>
     h' p2 = signed_drop_bit 1 (mult_hi (xa - xc + (yb - yd)) co1 +
               mult_hi (ya - yc - (xb - xd)) si1) \<and>
     h' (p2 + 1) = signed_drop_bit 1 (mult_hi (ya - yc - (xb - xd)) co1 -
               mult_hi (xa - xc + (yb - yd)) si1) \<and>
     h' p3 = signed_drop_bit 1 (mult_hi (xa - xc - (yb - yd)) co3 +
               mult_hi (ya - yc + (xb - xd)) si3) \<and>
     h' (p3 + 1) = signed_drop_bit 1 (mult_hi (ya - yc + (xb - xd)) co3 -
               mult_hi (xa - xc - (yb - yd)) si3) \<and>
     (\<forall>a. a < pSrc \<or> pSrc + 2 * 4 ^ K \<le> a \<longrightarrow> h' a = h a)"
proof -
  define n2 :: nat where "n2 = 4 ^ e"
  define T :: nat where "T = 4 ^ (K - Suc e)"
  have n2: "0 < n2" and T: "0 < T" by (simp_all add: n2_def T_def)
  have "Suc e \<le> K" using assms(1) by simp
  then have N: "(4::nat) ^ K = 4 * n2 * T"
    unfolding n2_def T_def by (simp flip: power_Suc power_add)
  have "(4::nat) ^ K \<le> 4 ^ 15" using assms(2) by (intro power_increasing) simp_all
  then have N31: "(4::nat) ^ K < 2 ^ 31" by simp
  have "(4::nat) ^ Suc e \<le> 4 ^ 15" using assms(1,2) by (intro power_increasing) simp_all
  then have e32: "(4::nat) ^ Suc e < 2 ^ 32" by simp
  have d: "(4 ^ Suc e :: 32 word) div 4 = of_nat n2"
    using drop_bit_2_of_nat32 [OF e32] by (simp add: drop_bit_eq_div n2_def)
  have p0: "p0 = pSrc + 2 * (j + 4 * n2 * t)" by (simp add: p0_def n2_def)
  obtain h' where run: "middle_j_loop_dir False pSrc (of_nat (4 ^ K)) pCoef m (of_nat (4 * n2))
            (of_nat n2) 0 (of_nat 0) h = Some h'"
    and fr: "\<And>a. (\<And>j t. j < n2 \<Longrightarrow> t < T \<Longrightarrow>
                   a \<notin> middle_cells (pSrc + 2 * (j + 4 * n2 * t)) n2) \<Longrightarrow> h' a = h a"
    and vl: "\<And>j t a. j < n2 \<Longrightarrow> t < T \<Longrightarrow>
                   a \<in> middle_cells (pSrc + 2 * (j + 4 * n2 * t)) n2 \<Longrightarrow>
               h' a = middle_stage_pass False pCoef (0 + of_nat (j - 0) * m)
                        (pSrc + 2 * (j + 4 * n2 * t)) n2 h a"
    using middle_j_loop_dir_values [OF n2 N N31 T _ assms(5), of 0 False m 0 h] by auto
  have run': "middle_j_loop_q31 pSrc (4 ^ K) pCoef m (4 ^ Suc e) (4 ^ Suc e div 4) 0 0 h = Some h'"
    using run unfolding middle_j_loop_q31_dir d by (simp add: n2_def)
  have jt: "j < n2" "t < T" using assms(3,4) by (simp_all add: n2_def T_def)
  define B where "B = middle_stage_butterfly_q31 co1 si1 co2 si2 co3 si3 p0 p1 p2 p3 h"
  have co: "(of_nat j * m + of_nat j * m) * 2 = 2 * (of_nat j * m) * 2"
    "(of_nat j * m + of_nat j * m + of_nat j * m) * 2 = 3 * (of_nat j * m) * 2"
    by simp_all
  have pass: "middle_stage_pass False pCoef (0 + of_nat (j - 0) * m) p0 n2 h = B"
    unfolding middle_stage_pass_def B_def middle_stage_butterfly_q31_dir co1_def si1_def
      co2_def si2_def co3_def si3_def p1_def p2_def p3_def n2_def
    by (simp only: add_0 diff_zero co)
  have val: "h' a = B a" if "a \<in> middle_cells p0 n2" for a
    using vl [OF jt, of a] that unfolding p0 [symmetric] pass by simp
  have cells: "p0 \<in> middle_cells p0 n2" "p0 + 1 \<in> middle_cells p0 n2"
    "p1 \<in> middle_cells p0 n2" "p1 + 1 \<in> middle_cells p0 n2"
    "p2 \<in> middle_cells p0 n2" "p2 + 1 \<in> middle_cells p0 n2"
    "p3 \<in> middle_cells p0 n2" "p3 + 1 \<in> middle_cells p0 n2"
    by (simp_all add: middle_cells_def p1_def p2_def p3_def n2_def)
  have "(1::nat) \<le> 4 ^ e" by simp
  then have dist: "p0 + 1 < p1" "p1 + 1 < p2" "p2 + 1 < p3"
    unfolding p1_def p2_def p3_def by linarith+
  note c = middle_stage_butterfly_q31_cells [OF dist, of co1 si1 co2 si2 co3 si3 h,
      folded B_def xa_def ya_def xb_def yb_def xc_def yc_def xd_def yd_def]
  have frame: "h' a = h a" if "a < pSrc \<or> pSrc + 2 * 4 ^ K \<le> a" for a
  proof (rule fr)
    fix j t assume "j < n2" "t < T"
    show "a \<notin> middle_cells (pSrc + 2 * (j + 4 * n2 * t)) n2"
    proof
      assume "a \<in> middle_cells (pSrc + 2 * (j + 4 * n2 * t)) n2"
      from middle_cells_in_buffer [OF this \<open>j < n2\<close> \<open>t < T\<close>] that
      show False unfolding N by simp
    qed
  qed
  show ?thesis
    apply (rule exI [of _ h'])
    apply (intro conjI allI impI)
    apply (rule run')
    apply (simp only: val [OF cells(1)] c)
    apply (simp only: val [OF cells(2)] c)
    apply (simp only: val [OF cells(3)] c)
    apply (simp only: val [OF cells(4)] c)
    apply (simp only: val [OF cells(5)] c)
    apply (simp only: val [OF cells(6)] c)
    apply (simp only: val [OF cells(7)] c)
    apply (simp only: val [OF cells(8)] c)
    apply (erule frame)
    done
qed

section \<open>The scaling of a middle stage\<close>

lemma sint_signed_drop_bit_2_less: "sint (signed_drop_bit 2 (w :: q31_t)) < 2 ^ 29"
proof -
  have "sint w < 2 ^ 31" using sint_lt [of w] by simp
  then show ?thesis
    by (simp add: sint_signed_drop_bit_eq drop_bit_eq_div)
qed

text \<open>
  Length 64, which has one middle stage, with the sub-block sizes \<^verbatim>\<open>n1 = 16\<close>,
  \<^verbatim>\<open>n2 = 4\<close> and the modifier 4. The buffer is the cells 0 to 127; the samples 1 and 9
  are \<open>(2^29 - 1, 2^29 - 1)\<close>, the samples 5 and 13 are \<open>(1 - 2^29, 1 - 2^29)\<close>, all
  others are 0. At the cells 128 to 223 is the table of the cosines and sines of the
  first 48 multiples of \<open>2\<pi>/64\<close>, rounded to Q31.
\<close>

definition middle_stage_example :: heap where
  "middle_stage_example =
    (\<lambda>a. if a = 2 \<or> a = 3 \<or> a = 18 \<or> a = 19 then 0x1FFFFFFF
         else if a = 10 \<or> a = 11 \<or> a = 26 \<or> a = 27 then 0xE0000001
         else if 128 \<le> a \<and> a < 224 then
           [
            0x7FFFFFFF, 0x00000000, 0x7F62368F, 0x0C8BD35E, 0x7D8A5F40, 0x18F8B83C,
            0x7A7D055B, 0x25280C5E, 0x7641AF3D, 0x30FBC54D, 0x70E2CBC6, 0x3C56BA70,
            0x6A6D98A4, 0x471CECE7, 0x62F201AC, 0x5133CC94, 0x5A82799A, 0x5A82799A,
            0x5133CC94, 0x62F201AC, 0x471CECE7, 0x6A6D98A4, 0x3C56BA70, 0x70E2CBC6,
            0x30FBC54D, 0x7641AF3D, 0x25280C5E, 0x7A7D055B, 0x18F8B83C, 0x7D8A5F40,
            0x0C8BD35E, 0x7F62368F, 0x00000000, 0x7FFFFFFF, 0xF3742CA2, 0x7F62368F,
            0xE70747C4, 0x7D8A5F40, 0xDAD7F3A2, 0x7A7D055B, 0xCF043AB3, 0x7641AF3D,
            0xC3A94590, 0x70E2CBC6, 0xB8E31319, 0x6A6D98A4, 0xAECC336C, 0x62F201AC,
            0xA57D8666, 0x5A82799A, 0x9D0DFE54, 0x5133CC94, 0x9592675C, 0x471CECE7,
            0x8F1D343A, 0x3C56BA70, 0x89BE50C3, 0x30FBC54D, 0x8582FAA5, 0x25280C5E,
            0x8275A0C0, 0x18F8B83C, 0x809DC971, 0x0C8BD35E, 0x80000000, 0x00000000,
            0x809DC971, 0xF3742CA2, 0x8275A0C0, 0xE70747C4, 0x8582FAA5, 0xDAD7F3A2,
            0x89BE50C3, 0xCF043AB3, 0x8F1D343A, 0xC3A94590, 0x9592675C, 0xB8E31319,
            0x9D0DFE54, 0xAECC336C, 0xA57D8666, 0xA57D8666, 0xAECC336C, 0x9D0DFE54,
            0xB8E31319, 0x9592675C, 0xC3A94590, 0x8F1D343A, 0xCF043AB3, 0x89BE50C3,
            0xDAD7F3A2, 0x8582FAA5, 0xE70747C4, 0x8275A0C0, 0xF3742CA2, 0x809DC971] ! (a - 128)
         else 0)"

lemma middle_stage_example_cells:
  "middle_stage_example 2 = 0x1FFFFFFF" "middle_stage_example 3 = 0x1FFFFFFF"
  "middle_stage_example 18 = 0x1FFFFFFF" "middle_stage_example 19 = 0x1FFFFFFF"
  "middle_stage_example 10 = 0xE0000001" "middle_stage_example 11 = 0xE0000001"
  "middle_stage_example 26 = 0xE0000001" "middle_stage_example 27 = 0xE0000001"
  "middle_stage_example 136 = 0x7641AF3D" "middle_stage_example 137 = 0x30FBC54D"
  "middle_stage_example 144 = 0x5A82799A" "middle_stage_example 145 = 0x5A82799A"
  "middle_stage_example 152 = 0x30FBC54D" "middle_stage_example 153 = 0x7641AF3D"
  by (simp_all add: middle_stage_example_def)

lemma ex_Some_the: "\<exists>y. f = Some y \<and> P y \<Longrightarrow> f \<noteq> None \<and> P (the f)"
  by auto

lemma middle_stage_example_run:
  "middle_j_loop_q31 0 (4 ^ 3) 128 4 (4 ^ Suc 1) (4 ^ Suc 1 div 4) 0 0 middle_stage_example \<noteq> None"
  "the (middle_j_loop_q31 0 (4 ^ 3) 128 4 (4 ^ Suc 1) (4 ^ Suc 1 div 4) 0 0 middle_stage_example)
     2 = 0"
  "the (middle_j_loop_q31 0 (4 ^ 3) 128 4 (4 ^ Suc 1) (4 ^ Suc 1 div 4) 0 0 middle_stage_example)
     3 = 0"
  "the (middle_j_loop_q31 0 (4 ^ 3) 128 4 (4 ^ Suc 1) (4 ^ Suc 1 div 4) 0 0 middle_stage_example)
     10 = 0x2D413CCB"
  "the (middle_j_loop_q31 0 (4 ^ 3) 128 4 (4 ^ Suc 1) (4 ^ Suc 1 div 4) 0 0 middle_stage_example)
     11 = 0"
  using middle_stage_q31_values [where e = 1 and K = 3 and j = 1 and t = 0 and pSrc = 0
      and pCoef = 128 and m = 4 and h = middle_stage_example, THEN ex_Some_the]
  by (simp_all add: middle_stage_example_cells del: add_2_eq_Suc add_2_eq_Suc' One_nat_def)
    (simp_all add: mult_hi_def)

text \<open>
  The second output of a butterfly as C4 words it: each combined value shifted right
  by 2 bits, and the sum of the two products by 1 further bit.
\<close>

definition twiddled_output_as_claimed :: "q31_t \<Rightarrow> q31_t \<Rightarrow> q31_t \<Rightarrow> q31_t \<Rightarrow> q31_t" where
  "twiddled_output_as_claimed r s co si =
     signed_drop_bit 1 (mult_hi (signed_drop_bit 2 r) co + mult_hi (signed_drop_bit 2 s) si)"

text \<open>
  C4 does not hold for the three outputs that are multiplied by coefficients. In the
  middle stage of length 64 the butterfly of \<open>j = 1\<close> in the first sub-block has its
  samples at the cells 2, 10, 18 and 26 and reads its second coefficient pair,
  \<open>(cos \<pi>/4, sin \<pi>/4)\<close>, at the cells 144 and 145. Both combined values
  \<open>xa + xc - (xb + xd)\<close> and \<open>ya + yc - (yb + yd)\<close> are \<open>2^31 - 4\<close>. The stage returns
  and has stored \<open>0x2D413CCB\<close> as the real part of the second output. This is at
  least \<open>2^29\<close>, and a 32-bit value that has been shifted right by 2 bits is below
  \<open>2^29\<close>: the output is the sum of the two high words shifted right by 1 bit and by
  no more. Worded as in C4 it would be \<open>0x0B504F32\<close>, a quarter of it.
\<close>

theorem middle_stage_output_shifted_by_1_only:
  "middle_j_loop_q31 0 64 128 4 16 4 0 0 middle_stage_example \<noteq> None \<and>
   the (middle_j_loop_q31 0 64 128 4 16 4 0 0 middle_stage_example) 10 = 0x2D413CCB \<and>
   2 ^ 29 \<le> sint (the (middle_j_loop_q31 0 64 128 4 16 4 0 0 middle_stage_example) 10) \<and>
   middle_stage_example 2 + middle_stage_example 18 -
     (middle_stage_example 10 + middle_stage_example 26) = 0x7FFFFFFC \<and>
   middle_stage_example 3 + middle_stage_example 19 -
     (middle_stage_example 11 + middle_stage_example 27) = 0x7FFFFFFC \<and>
   signed_drop_bit 1 (mult_hi 0x7FFFFFFC (middle_stage_example 144) +
     mult_hi 0x7FFFFFFC (middle_stage_example 145)) = 0x2D413CCB \<and>
   twiddled_output_as_claimed 0x7FFFFFFC 0x7FFFFFFC (middle_stage_example 144)
     (middle_stage_example 145) = 0x0B504F32"
proof -
  have "the (middle_j_loop_q31 0 64 128 4 16 4 0 0 middle_stage_example) 10 = 0x2D413CCB"
    and "middle_j_loop_q31 0 64 128 4 16 4 0 0 middle_stage_example \<noteq> None"
    using middle_stage_example_run(1,4) by simp_all
  then show ?thesis
    by (simp add: middle_stage_example_cells twiddled_output_as_claimed_def)
      (simp add: mult_hi_def)
qed



section \<open>The round trip of an impulse of length 16\<close>

lemma fits_mono: "fits n a \<Longrightarrow> n \<le> k \<Longrightarrow> fits k a"
proof -
  assume a: "fits n a" "n \<le> k"
  have "(2::int) ^ n \<le> 2 ^ k" using a(2) by (intro power_increasing) simp_all
  then show ?thesis using a(1) unfolding fits_def by linarith
qed

lemma sint_word_of_int32:
  "- (2 ^ 31) \<le> i \<Longrightarrow> i < 2 ^ 31 \<Longrightarrow> sint (word_of_int i :: q31_t) = i"
  by (simp add: sint_sbintrunc' signed_take_bit_int_eq_self)

lemma sint_push_bit_1:
  fixes w :: q31_t
  assumes "- (2 ^ 30) \<le> sint w" "sint w < 2 ^ 30"
  shows "sint (push_bit 1 w) = 2 * sint w"
proof -
  have p: "push_bit 1 w = w + w" by (simp add: push_bit_eq_mult mult_2_right)
  have "sint (w + w) = sint w + sint w"
    using assms by (simp add: sint_word_ariths signed_take_bit_int_eq_self)
  then show ?thesis unfolding p by simp
qed

text \<open>A multiplication by the coefficient of the angle 0 loses at most two units.\<close>

lemma mult_hi_unity:
  fixes a :: q31_t
  assumes "fits 27 a"
  shows "sint a - 2 \<le> sint (push_bit 1 (mult_hi a 0x7FFFFFFF))"
    and "sint (push_bit 1 (mult_hi a 0x7FFFFFFF)) \<le> sint a"
proof -
  define q where "q = (sint a * 2147483647) div 4294967296"
  have a: "- 134217728 \<le> sint a" "sint a \<le> 134217728"
    using assms by (simp_all add: fits_def)
  define r where "r = (sint a * 2147483647) mod 4294967296"
  have "sint a * 2147483647 = 4294967296 * q + r" by (simp add: q_def r_def)
  moreover have "0 \<le> r" "r < 4294967296" by (simp_all add: r_def)
  ultimately have d: "q * 4294967296 \<le> sint a * 2147483647"
    "sint a * 2147483647 < q * 4294967296 + 4294967296"
    by linarith+
  have q: "sint a - 2 \<le> 2 * q" "2 * q \<le> sint a"
    using a d by linarith+
  have m: "mult_hi a 0x7FFFFFFF = word_of_int q"
    by (simp add: mult_hi_def q_def)
  have s: "sint (mult_hi a 0x7FFFFFFF) = q"
    unfolding m by (rule sint_word_of_int32) (use a q in simp_all)
  have "sint (push_bit 1 (mult_hi a 0x7FFFFFFF)) = 2 * q"
    using sint_push_bit_1 [of "mult_hi a 0x7FFFFFFF"] a q unfolding s by simp
  with q show "sint a - 2 \<le> sint (push_bit 1 (mult_hi a 0x7FFFFFFF))"
    and "sint (push_bit 1 (mult_hi a 0x7FFFFFFF)) \<le> sint a" by simp_all
qed

text \<open>A product with 0 or 1 is 0 or -1 in its high word.\<close>

lemma mult_hi_bit:
  fixes d c :: q31_t
  assumes "0 \<le> sint d" "sint d \<le> 1"
  shows "fits 1 (push_bit 1 (mult_hi d c))"
proof -
  define q where "q = (sint d * sint c) div 4294967296"
  have c: "- 2147483648 \<le> sint c" "sint c < 2147483648"
    using sint_ge [of c] sint_lt [of c] by simp_all
  have "sint d = 0 \<or> sint d = 1" using assms by linarith
  then have p: "- 2147483648 \<le> sint d * sint c" "sint d * sint c < 2147483648"
    using c by auto
  define r where "r = (sint d * sint c) mod 4294967296"
  have "sint d * sint c = 4294967296 * q + r" by (simp add: q_def r_def)
  moreover have "0 \<le> r" "r < 4294967296" by (simp_all add: r_def)
  ultimately have q: "- 1 \<le> q" "q \<le> 0"
    using p by linarith+
  have m: "mult_hi d c = word_of_int q"
    by (simp add: mult_hi_def q_def)
  have s: "sint (mult_hi d c) = q"
    unfolding m by (rule sint_word_of_int32) (use q in simp_all)
  have "sint (push_bit 1 (mult_hi d c)) = 2 * q"
    using sint_push_bit_1 [of "mult_hi d c"] q unfolding s by simp
  with q show ?thesis by (simp add: fits_def)
qed

lemma impulse_16_forward:
  fixes h :: heap and m :: uint32_t and pSrc pCoef :: nat
  assumes buf: "\<forall>c. 0 < c \<and> c < 32 \<longrightarrow> h (pSrc + c) = 0"
    and tbl: "h pCoef = 0x7FFFFFFF" "h (pCoef + 1) = 0"
    and apart: "pCoef + 2 ^ 32 \<le> pSrc \<or> pSrc + 32 \<le> pCoef"
  defines "a \<equiv> signed_drop_bit 4 (h pSrc)"
  defines "a1 \<equiv> push_bit 1 (mult_hi a 0x7FFFFFFF)"
  defines "h2 \<equiv> last_stage_dir False pSrc 16 (first_stage_dir False pSrc 16 pCoef m h)"
  shows
    "h2 pSrc = a"
    and "h2 (pSrc + 1) = 0"
    and "h2 (pSrc + 2) = a"
    and "h2 (pSrc + 3) = 0"
    and "h2 (pSrc + 4) = a"
    and "h2 (pSrc + 5) = 0"
    and "h2 (pSrc + 6) = a"
    and "h2 (pSrc + 7) = 0"
    and "h2 (pSrc + 8) = a1"
    and "h2 (pSrc + 9) = 0"
    and "h2 (pSrc + 10) = a1"
    and "h2 (pSrc + 11) = 0"
    and "h2 (pSrc + 12) = a1"
    and "h2 (pSrc + 13) = 0"
    and "h2 (pSrc + 14) = a1"
    and "h2 (pSrc + 15) = 0"
    and "h2 (pSrc + 16) = a1"
    and "h2 (pSrc + 17) = 0"
    and "h2 (pSrc + 18) = a1"
    and "h2 (pSrc + 19) = 0"
    and "h2 (pSrc + 20) = a1"
    and "h2 (pSrc + 21) = 0"
    and "h2 (pSrc + 22) = a1"
    and "h2 (pSrc + 23) = 0"
    and "h2 (pSrc + 24) = a1"
    and "h2 (pSrc + 25) = 0"
    and "h2 (pSrc + 26) = a1"
    and "h2 (pSrc + 27) = 0"
    and "h2 (pSrc + 28) = a1"
    and "h2 (pSrc + 29) = 0"
    and "h2 (pSrc + 30) = a1"
    and "h2 (pSrc + 31) = 0"
proof -
  have comm: "numeral k + pSrc = pSrc + numeral k" for k by simp
  define h1 where "h1 = first_stage_dir False pSrc (of_nat 16) pCoef m h"
  note V0 = first_stage_dir_values [of 16 0 pCoef pSrc False m h, folded h1_def]
  note V1 = first_stage_dir_values [of 16 1 pCoef pSrc False m h, folded h1_def]
  note V2 = first_stage_dir_values [of 16 2 pCoef pSrc False m h, folded h1_def]
  note V3 = first_stage_dir_values [of 16 3 pCoef pSrc False m h, folded h1_def]
  have f0:
      "h1 pSrc = a" "h1 (pSrc + 1) = 0" "h1 (pSrc + 8) = a1" "h1 (pSrc + 9) = 0"
      "h1 (pSrc + 16) = a1" "h1 (pSrc + 17) = 0" "h1 (pSrc + 24) = a1" "h1 (pSrc + 25) = 0"
    using V0 buf tbl apart
    by (simp_all add: comm a_def a1_def dir_add_def dir_sub_def
        del: add_2_eq_Suc add_2_eq_Suc' One_nat_def)
  have f1:
      "h1 (pSrc + 2) = 0" "h1 (pSrc + 3) = 0" "h1 (pSrc + 10) = 0" "h1 (pSrc + 11) = 0"
      "h1 (pSrc + 18) = 0" "h1 (pSrc + 19) = 0" "h1 (pSrc + 26) = 0" "h1 (pSrc + 27) = 0"
    using V1 buf tbl apart
    by (simp_all add: comm a_def a1_def dir_add_def dir_sub_def
        del: add_2_eq_Suc add_2_eq_Suc' One_nat_def)
  have f2:
      "h1 (pSrc + 4) = 0" "h1 (pSrc + 5) = 0" "h1 (pSrc + 12) = 0" "h1 (pSrc + 13) = 0"
      "h1 (pSrc + 20) = 0" "h1 (pSrc + 21) = 0" "h1 (pSrc + 28) = 0" "h1 (pSrc + 29) = 0"
    using V2 buf tbl apart
    by (simp_all add: comm a_def a1_def dir_add_def dir_sub_def
        del: add_2_eq_Suc add_2_eq_Suc' One_nat_def)
  have f3:
      "h1 (pSrc + 6) = 0" "h1 (pSrc + 7) = 0" "h1 (pSrc + 14) = 0" "h1 (pSrc + 15) = 0"
      "h1 (pSrc + 22) = 0" "h1 (pSrc + 23) = 0" "h1 (pSrc + 30) = 0" "h1 (pSrc + 31) = 0"
    using V3 buf tbl apart
    by (simp_all add: comm a_def a1_def dir_add_def dir_sub_def
        del: add_2_eq_Suc add_2_eq_Suc' One_nat_def)
  define h2' where "h2' = last_stage_dir False pSrc (of_nat 16) h1"
  note W0 = last_stage_dir_values [of 16 0 False pSrc h1, folded h2'_def]
  note W1 = last_stage_dir_values [of 16 1 False pSrc h1, folded h2'_def]
  note W2 = last_stage_dir_values [of 16 2 False pSrc h1, folded h2'_def]
  note W3 = last_stage_dir_values [of 16 3 False pSrc h1, folded h2'_def]
  have g0:
      "h2' pSrc = a" "h2' (pSrc + 1) = 0" "h2' (pSrc + 2) = a" "h2' (pSrc + 3) = 0"
      "h2' (pSrc + 4) = a" "h2' (pSrc + 5) = 0" "h2' (pSrc + 6) = a" "h2' (pSrc + 7) = 0"
    using W0
    by (simp_all add: f0 f1 f2 f3 comm dir_add_def dir_sub_def
        del: add_2_eq_Suc add_2_eq_Suc' One_nat_def)
  have g1:
      "h2' (pSrc + 8) = a1" "h2' (pSrc + 9) = 0" "h2' (pSrc + 10) = a1" "h2' (pSrc + 11) = 0"
      "h2' (pSrc + 12) = a1" "h2' (pSrc + 13) = 0" "h2' (pSrc + 14) = a1" "h2' (pSrc + 15) = 0"
    using W1
    by (simp_all add: f0 f1 f2 f3 comm dir_add_def dir_sub_def
        del: add_2_eq_Suc add_2_eq_Suc' One_nat_def)
  have g2:
      "h2' (pSrc + 16) = a1" "h2' (pSrc + 17) = 0" "h2' (pSrc + 18) = a1" "h2' (pSrc + 19) = 0"
      "h2' (pSrc + 20) = a1" "h2' (pSrc + 21) = 0" "h2' (pSrc + 22) = a1" "h2' (pSrc + 23) = 0"
    using W2
    by (simp_all add: f0 f1 f2 f3 comm dir_add_def dir_sub_def
        del: add_2_eq_Suc add_2_eq_Suc' One_nat_def)
  have g3:
      "h2' (pSrc + 24) = a1" "h2' (pSrc + 25) = 0" "h2' (pSrc + 26) = a1" "h2' (pSrc + 27) = 0"
      "h2' (pSrc + 28) = a1" "h2' (pSrc + 29) = 0" "h2' (pSrc + 30) = a1" "h2' (pSrc + 31) = 0"
    using W3
    by (simp_all add: f0 f1 f2 f3 comm dir_add_def dir_sub_def
        del: add_2_eq_Suc add_2_eq_Suc' One_nat_def)
  have e: "h2 = h2'" by (simp add: h2_def h2'_def h1_def)
  show
    "h2 pSrc = a"
    and "h2 (pSrc + 1) = 0"
    and "h2 (pSrc + 2) = a"
    and "h2 (pSrc + 3) = 0"
    and "h2 (pSrc + 4) = a"
    and "h2 (pSrc + 5) = 0"
    and "h2 (pSrc + 6) = a"
    and "h2 (pSrc + 7) = 0"
    and "h2 (pSrc + 8) = a1"
    and "h2 (pSrc + 9) = 0"
    and "h2 (pSrc + 10) = a1"
    and "h2 (pSrc + 11) = 0"
    and "h2 (pSrc + 12) = a1"
    and "h2 (pSrc + 13) = 0"
    and "h2 (pSrc + 14) = a1"
    and "h2 (pSrc + 15) = 0"
    and "h2 (pSrc + 16) = a1"
    and "h2 (pSrc + 17) = 0"
    and "h2 (pSrc + 18) = a1"
    and "h2 (pSrc + 19) = 0"
    and "h2 (pSrc + 20) = a1"
    and "h2 (pSrc + 21) = 0"
    and "h2 (pSrc + 22) = a1"
    and "h2 (pSrc + 23) = 0"
    and "h2 (pSrc + 24) = a1"
    and "h2 (pSrc + 25) = 0"
    and "h2 (pSrc + 26) = a1"
    and "h2 (pSrc + 27) = 0"
    and "h2 (pSrc + 28) = a1"
    and "h2 (pSrc + 29) = 0"
    and "h2 (pSrc + 30) = a1"
    and "h2 (pSrc + 31) = 0"
    unfolding e by (rule g0 g1 g2 g3)+
qed

lemma fits2:
  "fits 1 y \<Longrightarrow> fits 1 z \<Longrightarrow> fits 2 (y + z)"
  "fits 1 y \<Longrightarrow> fits 1 z \<Longrightarrow> fits 2 (y - z)"
  using fits_add [of 1 y z] fits_sub [of 1 y z] by (simp_all add: numeral_2_eq_2)

lemma fits3:
  "fits 2 y \<Longrightarrow> fits 1 z \<Longrightarrow> fits 3 (y + z)"
  "fits 2 y \<Longrightarrow> fits 1 z \<Longrightarrow> fits 3 (y - z)"
  using fits_add [of 2 y z] fits_sub [of 2 y z] fits_mono [of 1 z 2]
  by (simp_all add: numeral_3_eq_3 numeral_2_eq_2)

lemma fits4:
  "fits 3 y \<Longrightarrow> fits 1 z \<Longrightarrow> fits 4 (y + z)"
  "fits 3 y \<Longrightarrow> fits 1 z \<Longrightarrow> fits 4 (y - z)"
  using fits_add [of 3 y z] fits_sub [of 3 y z] fits_mono [of 1 z 3]
  by (simp_all add: eval_nat_numeral)

lemma shifted_difference_bit:
  fixes a a1 :: q31_t
  assumes a: "fits 27 a" "sint a - 2 \<le> sint a1" "sint a1 \<le> sint a"
  shows "0 \<le> sint (signed_drop_bit 4 a - signed_drop_bit 4 a1)"
    and "sint (signed_drop_bit 4 a - signed_drop_bit 4 a1) \<le> 1"
proof -
  define b where "b = signed_drop_bit 4 a"
  define b1 where "b1 = signed_drop_bit 4 a1"
  have sa: "- 134217728 \<le> sint a" "sint a \<le> 134217728"
    using a(1) by (simp_all add: fits_def)
  have sb: "sint b = sint a div 16" "sint b1 = sint a1 div 16"
    by (simp_all add: b_def b1_def sint_signed_drop_bit_eq drop_bit_eq_div)
  have r: "- (2 ^ 31) \<le> sint a div 16 - sint a1 div 16" "sint a div 16 - sint a1 div 16 < 2 ^ 31"
    using sa a(2,3) by simp_all
  have "sint (b - b1) = sint b - sint b1"
    unfolding sint_word_ariths sb
    by (rule signed_take_bit_int_eq_self) (use r in simp_all)
  then have D: "0 \<le> sint (b - b1)" "sint (b - b1) \<le> 1"
    unfolding sb using a(2,3) by simp_all
  then show "0 \<le> sint (signed_drop_bit 4 a - signed_drop_bit 4 a1)"
    and "sint (signed_drop_bit 4 a - signed_drop_bit 4 a1) \<le> 1"
    by (simp_all add: b_def b1_def)
qed

lemma impulse_16_inverse:
  fixes h2 :: heap and m :: uint32_t and pSrc pCoef :: nat and a a1 :: q31_t
  assumes apart: "pCoef + 2 ^ 32 \<le> pSrc \<or> pSrc + 32 \<le> pCoef"
    and a: "fits 27 a" "sint a - 2 \<le> sint a1" "sint a1 \<le> sint a"
    and h2:
      "h2 pSrc = a" "h2 (pSrc + 1) = 0" "h2 (pSrc + 2) = a" "h2 (pSrc + 3) = 0"
      "h2 (pSrc + 4) = a" "h2 (pSrc + 5) = 0" "h2 (pSrc + 6) = a" "h2 (pSrc + 7) = 0"
      "h2 (pSrc + 8) = a1" "h2 (pSrc + 9) = 0" "h2 (pSrc + 10) = a1" "h2 (pSrc + 11) = 0"
      "h2 (pSrc + 12) = a1" "h2 (pSrc + 13) = 0" "h2 (pSrc + 14) = a1" "h2 (pSrc + 15) = 0"
      "h2 (pSrc + 16) = a1" "h2 (pSrc + 17) = 0" "h2 (pSrc + 18) = a1" "h2 (pSrc + 19) = 0"
      "h2 (pSrc + 20) = a1" "h2 (pSrc + 21) = 0" "h2 (pSrc + 22) = a1" "h2 (pSrc + 23) = 0"
      "h2 (pSrc + 24) = a1" "h2 (pSrc + 25) = 0" "h2 (pSrc + 26) = a1" "h2 (pSrc + 27) = 0"
      "h2 (pSrc + 28) = a1" "h2 (pSrc + 29) = 0" "h2 (pSrc + 30) = a1" "h2 (pSrc + 31) = 0"
  defines "s \<equiv> signed_drop_bit 4 a + signed_drop_bit 4 a1 +
      (signed_drop_bit 4 a1 + signed_drop_bit 4 a1)"
  defines "h4 \<equiv> last_stage_dir True pSrc 16 (first_stage_dir True pSrc 16 pCoef m h2)"
  shows "h4 pSrc = s + s + s + s"
    and "h4 (pSrc + 1) = 0"
    and "h4 (pSrc + 2) = 0"
    and "h4 (pSrc + 3) = 0"
    and "h4 (pSrc + 4) = 0"
    and "h4 (pSrc + 5) = 0"
    and "h4 (pSrc + 6) = 0"
    and "h4 (pSrc + 7) = 0"
    and "fits 4 (h4 (pSrc + 8))"
    and "fits 4 (h4 (pSrc + 9))"
    and "fits 4 (h4 (pSrc + 10))"
    and "fits 4 (h4 (pSrc + 11))"
    and "fits 4 (h4 (pSrc + 12))"
    and "fits 4 (h4 (pSrc + 13))"
    and "fits 4 (h4 (pSrc + 14))"
    and "fits 4 (h4 (pSrc + 15))"
    and "fits 4 (h4 (pSrc + 16))"
    and "fits 4 (h4 (pSrc + 17))"
    and "fits 4 (h4 (pSrc + 18))"
    and "fits 4 (h4 (pSrc + 19))"
    and "fits 4 (h4 (pSrc + 20))"
    and "fits 4 (h4 (pSrc + 21))"
    and "fits 4 (h4 (pSrc + 22))"
    and "fits 4 (h4 (pSrc + 23))"
    and "fits 4 (h4 (pSrc + 24))"
    and "fits 4 (h4 (pSrc + 25))"
    and "fits 4 (h4 (pSrc + 26))"
    and "fits 4 (h4 (pSrc + 27))"
    and "fits 4 (h4 (pSrc + 28))"
    and "fits 4 (h4 (pSrc + 29))"
    and "fits 4 (h4 (pSrc + 30))"
    and "fits 4 (h4 (pSrc + 31))"
proof -
  have comm: "numeral k + pSrc = pSrc + numeral k" for k by simp
  define b where "b = signed_drop_bit 4 a"
  define b1 where "b1 = signed_drop_bit 4 a1"
  note D = shifted_difference_bit [OF a, folded b_def b1_def]
  note bit = mult_hi_bit [OF D]
  define h3 where "h3 = first_stage_dir True pSrc (of_nat 16) pCoef m h2"
  note V0 = first_stage_dir_values [of 16 0 pCoef pSrc True m h2, folded h3_def]
  note V1 = first_stage_dir_values [of 16 1 pCoef pSrc True m h2, folded h3_def]
  note V2 = first_stage_dir_values [of 16 2 pCoef pSrc True m h2, folded h3_def]
  note V3 = first_stage_dir_values [of 16 3 pCoef pSrc True m h2, folded h3_def]
  have f0:
      "h3 pSrc = s" "h3 (pSrc + 1) = 0" "fits 1 (h3 (pSrc + 8))" "fits 1 (h3 (pSrc + 9))"
      "fits 1 (h3 (pSrc + 16))" "fits 1 (h3 (pSrc + 17))" "fits 1 (h3 (pSrc + 24))" "fits 1 (h3 (pSrc + 25))"
    using V0 apart
    by (simp_all add: h2 bit comm s_def b_def [symmetric] b1_def [symmetric] dir_add_def
        dir_sub_def del: add_2_eq_Suc add_2_eq_Suc' One_nat_def)
  have f1:
      "h3 (pSrc + 2) = s" "h3 (pSrc + 3) = 0" "fits 1 (h3 (pSrc + 10))" "fits 1 (h3 (pSrc + 11))"
      "fits 1 (h3 (pSrc + 18))" "fits 1 (h3 (pSrc + 19))" "fits 1 (h3 (pSrc + 26))" "fits 1 (h3 (pSrc + 27))"
    using V1 apart
    by (simp_all add: h2 bit comm s_def b_def [symmetric] b1_def [symmetric] dir_add_def
        dir_sub_def del: add_2_eq_Suc add_2_eq_Suc' One_nat_def)
  have f2:
      "h3 (pSrc + 4) = s" "h3 (pSrc + 5) = 0" "fits 1 (h3 (pSrc + 12))" "fits 1 (h3 (pSrc + 13))"
      "fits 1 (h3 (pSrc + 20))" "fits 1 (h3 (pSrc + 21))" "fits 1 (h3 (pSrc + 28))" "fits 1 (h3 (pSrc + 29))"
    using V2 apart
    by (simp_all add: h2 bit comm s_def b_def [symmetric] b1_def [symmetric] dir_add_def
        dir_sub_def del: add_2_eq_Suc add_2_eq_Suc' One_nat_def)
  have f3:
      "h3 (pSrc + 6) = s" "h3 (pSrc + 7) = 0" "fits 1 (h3 (pSrc + 14))" "fits 1 (h3 (pSrc + 15))"
      "fits 1 (h3 (pSrc + 22))" "fits 1 (h3 (pSrc + 23))" "fits 1 (h3 (pSrc + 30))" "fits 1 (h3 (pSrc + 31))"
    using V3 apart
    by (simp_all add: h2 bit comm s_def b_def [symmetric] b1_def [symmetric] dir_add_def
        dir_sub_def del: add_2_eq_Suc add_2_eq_Suc' One_nat_def)
  define h4' where "h4' = last_stage_dir True pSrc (of_nat 16) h3"
  have N: "4 \<le> (16::nat)" "(16::nat) < 2 ^ 32" by simp_all
  have G: "0 < (16::nat) div 4" "1 < (16::nat) div 4" "2 < (16::nat) div 4" "3 < (16::nat) div 4" by simp_all
  note W0 = last_stage_dir_values [of 16 0 True pSrc h3, OF N G(1), folded h4'_def]
  note W1 = last_stage_dir_values [of 16 1 True pSrc h3, OF N G(2), folded h4'_def]
  note W2 = last_stage_dir_values [of 16 2 True pSrc h3, OF N G(3), folded h4'_def]
  note W3 = last_stage_dir_values [of 16 3 True pSrc h3, OF N G(4), folded h4'_def]
  have g0:
      "h4' pSrc = s + s + s + s" "h4' (pSrc + 1) = 0" "h4' (pSrc + 2) = 0" "h4' (pSrc + 3) = 0"
      "h4' (pSrc + 4) = 0" "h4' (pSrc + 5) = 0" "h4' (pSrc + 6) = 0" "h4' (pSrc + 7) = 0"
    using W0
    by (simp_all add: f0 f1 f2 f3 comm dir_add_def dir_sub_def
        del: add_2_eq_Suc add_2_eq_Suc' One_nat_def)
  note f = f0 f1 f2 f3
  have "fits 4 (h4' (pSrc + 8 * 1))"
    by (simp only: W1(1) dir_add_def dir_sub_def if_True)
      (intro fits4 fits3 fits2; simp add: comm f del: One_nat_def)
  then have k8: "fits 4 (h4' (pSrc + 8))" by (simp add: comm)
  have "fits 4 (h4' (pSrc + 8 * 1 + 1))"
    by (simp only: W1(2) dir_add_def dir_sub_def if_True)
      (intro fits4 fits3 fits2; simp add: comm f del: One_nat_def)
  then have k9: "fits 4 (h4' (pSrc + 9))" by (simp add: comm)
  have "fits 4 (h4' (pSrc + 8 * 1 + 2))"
    by (simp only: W1(3) dir_add_def dir_sub_def if_True)
      (intro fits4 fits3 fits2; simp add: comm f del: One_nat_def)
  then have k10: "fits 4 (h4' (pSrc + 10))" by (simp add: comm)
  have "fits 4 (h4' (pSrc + 8 * 1 + 3))"
    by (simp only: W1(4) dir_add_def dir_sub_def if_True)
      (intro fits4 fits3 fits2; simp add: comm f del: One_nat_def)
  then have k11: "fits 4 (h4' (pSrc + 11))" by (simp add: comm)
  have "fits 4 (h4' (pSrc + 8 * 1 + 4))"
    by (simp only: W1(5) dir_add_def dir_sub_def if_True)
      (intro fits4 fits3 fits2; simp add: comm f del: One_nat_def)
  then have k12: "fits 4 (h4' (pSrc + 12))" by (simp add: comm)
  have "fits 4 (h4' (pSrc + 8 * 1 + 5))"
    by (simp only: W1(6) dir_add_def dir_sub_def if_True)
      (intro fits4 fits3 fits2; simp add: comm f del: One_nat_def)
  then have k13: "fits 4 (h4' (pSrc + 13))" by (simp add: comm)
  have "fits 4 (h4' (pSrc + 8 * 1 + 6))"
    by (simp only: W1(7) dir_add_def dir_sub_def if_True)
      (intro fits4 fits3 fits2; simp add: comm f del: One_nat_def)
  then have k14: "fits 4 (h4' (pSrc + 14))" by (simp add: comm)
  have "fits 4 (h4' (pSrc + 8 * 1 + 7))"
    by (simp only: W1(8) dir_add_def dir_sub_def if_True)
      (intro fits4 fits3 fits2; simp add: comm f del: One_nat_def)
  then have k15: "fits 4 (h4' (pSrc + 15))" by (simp add: comm)
  have "fits 4 (h4' (pSrc + 8 * 2))"
    by (simp only: W2(1) dir_add_def dir_sub_def if_True)
      (intro fits4 fits3 fits2; simp add: comm f del: One_nat_def)
  then have k16: "fits 4 (h4' (pSrc + 16))" by (simp add: comm)
  have "fits 4 (h4' (pSrc + 8 * 2 + 1))"
    by (simp only: W2(2) dir_add_def dir_sub_def if_True)
      (intro fits4 fits3 fits2; simp add: comm f del: One_nat_def)
  then have k17: "fits 4 (h4' (pSrc + 17))" by (simp add: comm)
  have "fits 4 (h4' (pSrc + 8 * 2 + 2))"
    by (simp only: W2(3) dir_add_def dir_sub_def if_True)
      (intro fits4 fits3 fits2; simp add: comm f del: One_nat_def)
  then have k18: "fits 4 (h4' (pSrc + 18))" by (simp add: comm)
  have "fits 4 (h4' (pSrc + 8 * 2 + 3))"
    by (simp only: W2(4) dir_add_def dir_sub_def if_True)
      (intro fits4 fits3 fits2; simp add: comm f del: One_nat_def)
  then have k19: "fits 4 (h4' (pSrc + 19))" by (simp add: comm)
  have "fits 4 (h4' (pSrc + 8 * 2 + 4))"
    by (simp only: W2(5) dir_add_def dir_sub_def if_True)
      (intro fits4 fits3 fits2; simp add: comm f del: One_nat_def)
  then have k20: "fits 4 (h4' (pSrc + 20))" by (simp add: comm)
  have "fits 4 (h4' (pSrc + 8 * 2 + 5))"
    by (simp only: W2(6) dir_add_def dir_sub_def if_True)
      (intro fits4 fits3 fits2; simp add: comm f del: One_nat_def)
  then have k21: "fits 4 (h4' (pSrc + 21))" by (simp add: comm)
  have "fits 4 (h4' (pSrc + 8 * 2 + 6))"
    by (simp only: W2(7) dir_add_def dir_sub_def if_True)
      (intro fits4 fits3 fits2; simp add: comm f del: One_nat_def)
  then have k22: "fits 4 (h4' (pSrc + 22))" by (simp add: comm)
  have "fits 4 (h4' (pSrc + 8 * 2 + 7))"
    by (simp only: W2(8) dir_add_def dir_sub_def if_True)
      (intro fits4 fits3 fits2; simp add: comm f del: One_nat_def)
  then have k23: "fits 4 (h4' (pSrc + 23))" by (simp add: comm)
  have "fits 4 (h4' (pSrc + 8 * 3))"
    by (simp only: W3(1) dir_add_def dir_sub_def if_True)
      (intro fits4 fits3 fits2; simp add: comm f del: One_nat_def)
  then have k24: "fits 4 (h4' (pSrc + 24))" by (simp add: comm)
  have "fits 4 (h4' (pSrc + 8 * 3 + 1))"
    by (simp only: W3(2) dir_add_def dir_sub_def if_True)
      (intro fits4 fits3 fits2; simp add: comm f del: One_nat_def)
  then have k25: "fits 4 (h4' (pSrc + 25))" by (simp add: comm)
  have "fits 4 (h4' (pSrc + 8 * 3 + 2))"
    by (simp only: W3(3) dir_add_def dir_sub_def if_True)
      (intro fits4 fits3 fits2; simp add: comm f del: One_nat_def)
  then have k26: "fits 4 (h4' (pSrc + 26))" by (simp add: comm)
  have "fits 4 (h4' (pSrc + 8 * 3 + 3))"
    by (simp only: W3(4) dir_add_def dir_sub_def if_True)
      (intro fits4 fits3 fits2; simp add: comm f del: One_nat_def)
  then have k27: "fits 4 (h4' (pSrc + 27))" by (simp add: comm)
  have "fits 4 (h4' (pSrc + 8 * 3 + 4))"
    by (simp only: W3(5) dir_add_def dir_sub_def if_True)
      (intro fits4 fits3 fits2; simp add: comm f del: One_nat_def)
  then have k28: "fits 4 (h4' (pSrc + 28))" by (simp add: comm)
  have "fits 4 (h4' (pSrc + 8 * 3 + 5))"
    by (simp only: W3(6) dir_add_def dir_sub_def if_True)
      (intro fits4 fits3 fits2; simp add: comm f del: One_nat_def)
  then have k29: "fits 4 (h4' (pSrc + 29))" by (simp add: comm)
  have "fits 4 (h4' (pSrc + 8 * 3 + 6))"
    by (simp only: W3(7) dir_add_def dir_sub_def if_True)
      (intro fits4 fits3 fits2; simp add: comm f del: One_nat_def)
  then have k30: "fits 4 (h4' (pSrc + 30))" by (simp add: comm)
  have "fits 4 (h4' (pSrc + 8 * 3 + 7))"
    by (simp only: W3(8) dir_add_def dir_sub_def if_True)
      (intro fits4 fits3 fits2; simp add: comm f del: One_nat_def)
  then have k31: "fits 4 (h4' (pSrc + 31))" by (simp add: comm)
  have e: "h4 = h4'" by (simp add: h4_def h4'_def h3_def)
  show "h4 pSrc = s + s + s + s"
    and "h4 (pSrc + 1) = 0"
    and "h4 (pSrc + 2) = 0"
    and "h4 (pSrc + 3) = 0"
    and "h4 (pSrc + 4) = 0"
    and "h4 (pSrc + 5) = 0"
    and "h4 (pSrc + 6) = 0"
    and "h4 (pSrc + 7) = 0"
    and "fits 4 (h4 (pSrc + 8))"
    and "fits 4 (h4 (pSrc + 9))"
    and "fits 4 (h4 (pSrc + 10))"
    and "fits 4 (h4 (pSrc + 11))"
    and "fits 4 (h4 (pSrc + 12))"
    and "fits 4 (h4 (pSrc + 13))"
    and "fits 4 (h4 (pSrc + 14))"
    and "fits 4 (h4 (pSrc + 15))"
    and "fits 4 (h4 (pSrc + 16))"
    and "fits 4 (h4 (pSrc + 17))"
    and "fits 4 (h4 (pSrc + 18))"
    and "fits 4 (h4 (pSrc + 19))"
    and "fits 4 (h4 (pSrc + 20))"
    and "fits 4 (h4 (pSrc + 21))"
    and "fits 4 (h4 (pSrc + 22))"
    and "fits 4 (h4 (pSrc + 23))"
    and "fits 4 (h4 (pSrc + 24))"
    and "fits 4 (h4 (pSrc + 25))"
    and "fits 4 (h4 (pSrc + 26))"
    and "fits 4 (h4 (pSrc + 27))"
    and "fits 4 (h4 (pSrc + 28))"
    and "fits 4 (h4 (pSrc + 29))"
    and "fits 4 (h4 (pSrc + 30))"
    and "fits 4 (h4 (pSrc + 31))"
    unfolding e by (rule g0 k8 k9 k10 k11 k12 k13 k14 k15 k16 k17 k18 k19 k20 k21 k22 k23 k24 k25 k26 k27 k28 k29 k30 k31)+
qed

lemma impulse_sum_bound:
  fixes x a a1 :: q31_t
  assumes a: "sint a = sint x div 16" "sint a - 2 \<le> sint a1" "sint a1 \<le> sint a"
  defines "s \<equiv> signed_drop_bit 4 a + signed_drop_bit 4 a1 +
      (signed_drop_bit 4 a1 + signed_drop_bit 4 a1)"
  shows "\<bar>2 ^ 4 * sint (s + s + s + s) - sint x\<bar> \<le> 447"
proof -
  define b where "b = signed_drop_bit 4 a"
  define b1 where "b1 = signed_drop_bit 4 a1"
  have x: "- 2147483648 \<le> sint x" "sint x < 2147483648"
    using sint_ge [of x] sint_lt [of x] by simp_all
  have sb: "sint b = sint a div 16" "sint b1 = sint a1 div 16"
    by (simp_all add: b_def b1_def sint_signed_drop_bit_eq drop_bit_eq_div)
  have fb: "fits 24 b" "fits 24 b1"
    unfolding fits_def sb using x a by (simp_all, arith+)
  have f25: "fits 25 (b + b1)" "fits 25 (b1 + b1)"
    using fits_add [OF fb] fits_add [OF fb(2) fb(2)] by simp_all
  have f26: "fits 26 s"
    unfolding s_def b_def [symmetric] b1_def [symmetric] using fits_add [OF f25] by simp
  have f27: "fits 27 (s + s)" using fits_add [OF f26 f26] by simp
  have f28: "fits 28 (s + s + s)"
    using fits_add [OF fits_mono [OF f27, of 27] fits_mono [OF f26, of 27]] by simp
  have "sint (s + s + s + s) = sint (s + s + s) + sint s"
    by (rule sint_add_fits [OF f28 fits_mono [OF f26, of 28]]) simp_all
  also have "sint (s + s + s) = sint (s + s) + sint s"
    by (rule sint_add_fits [OF f27 fits_mono [OF f26, of 27]]) simp_all
  also have "sint (s + s) = sint s + sint s"
    by (rule sint_add_fits [OF f26 f26]) simp
  finally have s4: "sint (s + s + s + s) = 4 * sint s" by simp
  have "sint s = sint (b + b1) + sint (b1 + b1)"
    unfolding s_def b_def [symmetric] b1_def [symmetric]
    by (rule sint_add_fits [OF f25]) simp
  also have "sint (b + b1) = sint b + sint b1"
    by (rule sint_add_fits [OF fb]) simp
  also have "sint (b1 + b1) = sint b1 + sint b1"
    by (rule sint_add_fits [OF fb(2) fb(2)]) simp
  finally have ss: "sint s = sint a div 16 + 3 * (sint a1 div 16)"
    unfolding sb by simp
  have "\<bar>16 * (4 * (sint a div 16 + 3 * (sint a1 div 16))) - sint x\<bar> \<le> 447"
  proof -
    define qx rx q r q1 r1 where "qx = sint x div 16" and "rx = sint x mod 16"
      and "q = sint a div 16" and "r = sint a mod 16"
      and "q1 = sint a1 div 16" and "r1 = sint a1 mod 16"
    have d: "sint x = 16 * qx + rx" "sint a = 16 * q + r" "sint a1 = 16 * q1 + r1"
      "0 \<le> rx" "rx < 16" "0 \<le> r" "r < 16" "0 \<le> r1" "r1 < 16"
      by (simp_all add: qx_def rx_def q_def r_def q1_def r1_def)
    have qx: "sint a = qx" using a(1) by (simp add: qx_def)
    have "q - 1 \<le> q1" "q1 \<le> q" using d a(2,3) by linarith+
    with qx have "64 * q + 192 * q1 - sint x \<le> 447" "- 447 \<le> 64 * q + 192 * q1 - sint x"
      using d by linarith+
    then have "\<bar>16 * (4 * (q + 3 * q1)) - sint x\<bar> \<le> 447"
      by (simp add: abs_le_iff)
    then show ?thesis by (simp add: q_def q1_def)
  qed
  then show ?thesis
    unfolding s4 ss by simp
qed

lemma impulse_16_round_trip:
  fixes h :: heap and m :: uint32_t and pSrc pCoef :: nat
  assumes buf: "\<forall>c. 0 < c \<and> c < 32 \<longrightarrow> h (pSrc + c) = 0"
    and tbl: "h pCoef = 0x7FFFFFFF" "h (pCoef + 1) = 0"
    and apart: "pCoef + 2 ^ 32 \<le> pSrc \<or> pSrc + 32 \<le> pCoef"
  shows "\<exists>r. round_trip_q31 pSrc 16 pCoef m h = Some r \<and>
           (\<forall>c<32. \<bar>rescale_q31 4 (r (pSrc + c)) - sint (h (pSrc + c))\<bar> \<le> 447)"
proof -
  define a where "a = signed_drop_bit 4 (h pSrc)"
  define a1 where "a1 = push_bit 1 (mult_hi a 0x7FFFFFFF)"
  define h2 where "h2 = last_stage_dir False pSrc 16 (first_stage_dir False pSrc 16 pCoef m h)"
  define r where "r = last_stage_dir True pSrc 16 (first_stage_dir True pSrc 16 pCoef m h2)"
  define s where "s = signed_drop_bit 4 a + signed_drop_bit 4 a1 +
      (signed_drop_bit 4 a1 + signed_drop_bit 4 a1)"
  have run: "round_trip_q31 pSrc 16 pCoef m h = Some r"
    by (simp add: round_trip_q31_def riscv_radix4_butterfly_q31_below_20
        riscv_radix4_butterfly_inverse_q31_below_20 r_def h2_def last_stage_q31_dir
        first_stage_q31_dir last_stage_inverse_q31_dir first_stage_inverse_q31_dir)
  have fa: "fits 27 a" unfolding a_def by (rule fits_guard)
  note ua = mult_hi_unity [OF fa, folded a1_def]
  note F = impulse_16_forward [OF buf tbl apart, of m, folded a_def, folded a1_def,
      folded h2_def]
  note I = impulse_16_inverse [OF apart fa ua F, of m, folded s_def, folded r_def]
  have sa: "sint a = sint (h pSrc) div 16"
    by (simp add: a_def sint_signed_drop_bit_eq drop_bit_eq_div)
  have z: "\<bar>rescale_q31 4 (r pSrc) - sint (h pSrc)\<bar> \<le> 447"
    unfolding rescale_q31_def I(1) s_def by (rule impulse_sum_bound [OF sa ua])
  have zero: "\<bar>rescale_q31 4 (r k) - sint (h k)\<bar> \<le> 447"
    if "r k = 0" "h k = 0" for k
    using that by (simp add: rescale_q31_def)
  have small: "\<bar>rescale_q31 4 (r k) - sint (h k)\<bar> \<le> 447"
    if "fits 4 (r k)" "h k = 0" for k
    using that by (simp add: rescale_q31_def fits_def abs_le_iff)
  have hb:
    "h (pSrc + 1) = 0"
    "h (pSrc + 2) = 0"
    "h (pSrc + 3) = 0"
    "h (pSrc + 4) = 0"
    "h (pSrc + 5) = 0"
    "h (pSrc + 6) = 0"
    "h (pSrc + 7) = 0"
    "h (pSrc + 8) = 0"
    "h (pSrc + 9) = 0"
    "h (pSrc + 10) = 0"
    "h (pSrc + 11) = 0"
    "h (pSrc + 12) = 0"
    "h (pSrc + 13) = 0"
    "h (pSrc + 14) = 0"
    "h (pSrc + 15) = 0"
    "h (pSrc + 16) = 0"
    "h (pSrc + 17) = 0"
    "h (pSrc + 18) = 0"
    "h (pSrc + 19) = 0"
    "h (pSrc + 20) = 0"
    "h (pSrc + 21) = 0"
    "h (pSrc + 22) = 0"
    "h (pSrc + 23) = 0"
    "h (pSrc + 24) = 0"
    "h (pSrc + 25) = 0"
    "h (pSrc + 26) = 0"
    "h (pSrc + 27) = 0"
    "h (pSrc + 28) = 0"
    "h (pSrc + 29) = 0"
    "h (pSrc + 30) = 0"
    "h (pSrc + 31) = 0"
    using buf by (simp_all del: add_2_eq_Suc add_2_eq_Suc' One_nat_def)
  note cells =
    zero [OF I(2) hb(1)]
    zero [OF I(3) hb(2)]
    zero [OF I(4) hb(3)]
    zero [OF I(5) hb(4)]
    zero [OF I(6) hb(5)]
    zero [OF I(7) hb(6)]
    zero [OF I(8) hb(7)]
    small [OF I(9) hb(8)]
    small [OF I(10) hb(9)]
    small [OF I(11) hb(10)]
    small [OF I(12) hb(11)]
    small [OF I(13) hb(12)]
    small [OF I(14) hb(13)]
    small [OF I(15) hb(14)]
    small [OF I(16) hb(15)]
    small [OF I(17) hb(16)]
    small [OF I(18) hb(17)]
    small [OF I(19) hb(18)]
    small [OF I(20) hb(19)]
    small [OF I(21) hb(20)]
    small [OF I(22) hb(21)]
    small [OF I(23) hb(22)]
    small [OF I(24) hb(23)]
    small [OF I(25) hb(24)]
    small [OF I(26) hb(25)]
    small [OF I(27) hb(26)]
    small [OF I(28) hb(27)]
    small [OF I(29) hb(28)]
    small [OF I(30) hb(29)]
    small [OF I(31) hb(30)]
    small [OF I(32) hb(31)]
  have "\<bar>rescale_q31 4 (r (pSrc + c)) - sint (h (pSrc + c))\<bar> \<le> 447" if "c < 32" for c
  proof -
    have "c = 0 \<or> c = 1 \<or> c = 2 \<or> c = 3 \<or> c = 4 \<or> c = 5 \<or> c = 6 \<or> c = 7 \<or> c = 8 \<or> c = 9 \<or> c = 10 \<or> c = 11 \<or> c = 12 \<or> c = 13 \<or> c = 14 \<or> c = 15 \<or> c = 16 \<or> c = 17 \<or> c = 18 \<or> c = 19 \<or> c = 20 \<or> c = 21 \<or> c = 22 \<or> c = 23 \<or> c = 24 \<or> c = 25 \<or> c = 26 \<or> c = 27 \<or> c = 28 \<or> c = 29 \<or> c = 30 \<or> c = 31"
      using that by (simp add: eval_nat_numeral less_Suc_eq)
    then show ?thesis
      by (elim disjE; hypsubst; simp only: add_0_right z cells)
  qed
  with run show ?thesis by blast
qed

end
